theory Spec2Isabelle
  imports
    Main
    "HOL-Library.Char_ord"
    "HOL-Library.List_Lexorder"
    "HOL-Library.Product_Lexorder"
    "HOL-Library.Multiset"
begin

section \<open>Python built-ins used by the script\<close>

text \<open>
  Strings are byte strings here (\<^typ>\<open>string\<close>); the script's own literals and the queue
  counts it parses are ASCII. Python's unbounded integers are \<^typ>\<open>int\<close>.
\<close>

datatype py_exception =
    QueueDoesNotExist
  | ClientError string
  | KeyError string
  | ValueError string
  | SystemExit int

subsection \<open>\<open>str(n)\<close> for integers\<close>

definition digit_char :: "nat \<Rightarrow> char" where
  "digit_char d = ''0123456789'' ! (d mod 10)"

fun str_nat :: "nat \<Rightarrow> string" where
  "str_nat n = (if n < 10 then [digit_char n] else str_nat (n div 10) @ [digit_char (n mod 10)])"

declare str_nat.simps [simp del]

definition str_int :: "int \<Rightarrow> string" where
  "str_int i = (if i < 0 then CHR ''-'' # str_nat (nat (- i)) else str_nat (nat i))"

subsection \<open>\<open>int(s)\<close> for strings\<close>

text \<open>
  \<open>int(s)\<close> strips surrounding whitespace, accepts one optional sign, and then wants decimal
  digits, where single underscores may separate digits. Anything else raises \<open>ValueError\<close>.
\<close>

definition is_space :: "char \<Rightarrow> bool" where
  "is_space c \<longleftrightarrow>
     c \<in> set [CHR '' '', CHR 0x09, CHR 0x0A, CHR 0x0B, CHR 0x0C, CHR 0x0D,
               CHR 0x1C, CHR 0x1D, CHR 0x1E, CHR 0x1F]"

definition is_digit :: "char \<Rightarrow> bool" where
  "is_digit c \<longleftrightarrow> c \<in> set ''0123456789''"

definition digit_val :: "char \<Rightarrow> nat" where
  "digit_val c = of_char c - 48"

definition strip :: "string \<Rightarrow> string" where
  "strip s = rev (dropWhile is_space (rev (dropWhile is_space s)))"

fun py_digits :: "bool \<Rightarrow> nat \<Rightarrow> string \<Rightarrow> nat option" where
  "py_digits prev acc [] = (if prev then Some acc else None)"
| "py_digits prev acc (c # cs) =
     (if is_digit c then py_digits True (acc * 10 + digit_val c) cs
      else if c = CHR ''_'' \<and> prev then py_digits False acc cs
      else None)"

definition py_int :: "string \<Rightarrow> py_exception + int" where
  "py_int s =
     (let t = strip s;
          bad = Inl (ValueError (''invalid literal for int() with base 10: '' @ s))
      in case t of
           [] \<Rightarrow> bad
         | c # r \<Rightarrow>
             if c = CHR ''-'' then
               (case py_digits False 0 r of None \<Rightarrow> bad | Some n \<Rightarrow> Inr (- int n))
             else if c = CHR ''+'' then
               (case py_digits False 0 r of None \<Rightarrow> bad | Some n \<Rightarrow> Inr (int n))
             else
               (case py_digits False 0 t of None \<Rightarrow> bad | Some n \<Rightarrow> Inr (int n)))"

subsection \<open>String methods\<close>

text \<open>\<open>s.split(sep)\<close> for a one-character separator: the result is never empty.\<close>

fun split :: "char \<Rightarrow> string \<Rightarrow> string list" where
  "split sep [] = [[]]"
| "split sep (c # cs) =
     (if c = sep then [] # split sep cs
      else (case split sep cs of
              [] \<Rightarrow> [[c]]
            | w # ws \<Rightarrow> (c # w) # ws))"

definition ljust :: "nat \<Rightarrow> string \<Rightarrow> string" where
  "ljust width s = s @ replicate (width - length s) CHR '' ''"

definition rjust :: "nat \<Rightarrow> string \<Rightarrow> string" where
  "rjust width s = replicate (width - length s) CHR '' '' @ s"

definition lower_char :: "char \<Rightarrow> char" where
  "lower_char c =
     (if CHR ''A'' \<le> c \<and> c \<le> CHR ''Z'' then char_of (of_char c + (32::nat)) else c)"

section \<open>The queueing service\<close>

text \<open>
  The boto3 client is the external collaborator. A call either raises or returns a response
  dictionary; \<open>Attributes\<close> and \<open>QueueUrls\<close> are optional keys of the responses.
\<close>

record qa_response =
  Attributes :: "(string \<times> string) list option"

record lq_response =
  QueueUrls :: "string list option"

record sqs_client =
  list_queues :: "py_exception + lq_response"
  get_queue_attributes :: "string \<Rightarrow> string list \<Rightarrow> py_exception + qa_response"

section \<open>\<open>check_queue\<close>\<close>

text \<open>A result tuple \<open>(message_count, in_flight_count, queue_url)\<close>.\<close>

type_synonym snapshot = "int \<times> int \<times> string"

definition attribute_names :: "bool \<Rightarrow> string list" where
  "attribute_names include_in_flight =
     [''ApproximateNumberOfMessages''] @
     (if include_in_flight then [''ApproximateNumberOfMessagesNotVisible''] else [])"

definition in_flight_of :: "bool \<Rightarrow> (string \<times> string) list \<Rightarrow> py_exception + int" where
  "in_flight_of include_in_flight attrs =
     (if include_in_flight then
        (case map_of attrs ''ApproximateNumberOfMessagesNotVisible'' of
           None \<Rightarrow> Inr 0
         | Some v \<Rightarrow> py_int v)
      else Inr 0)"

definition check_queue :: "sqs_client \<Rightarrow> string \<Rightarrow> bool \<Rightarrow> py_exception + snapshot option" where
  "check_queue sqs queue_url include_in_flight =
     (case get_queue_attributes sqs queue_url (attribute_names include_in_flight) of
        Inl QueueDoesNotExist \<Rightarrow> Inr None
      | Inl e \<Rightarrow> Inl e
      | Inr response \<Rightarrow>
          (case Attributes response of
             None \<Rightarrow> Inl (KeyError ''Attributes'')
           | Some attrs \<Rightarrow>
               (case map_of attrs ''ApproximateNumberOfMessages'' of
                  None \<Rightarrow> Inl (KeyError ''ApproximateNumberOfMessages'')
                | Some v \<Rightarrow>
                    (case py_int v of
                       Inl e \<Rightarrow> Inl e
                     | Inr message_count \<Rightarrow>
                         (case in_flight_of include_in_flight attrs of
                            Inl e \<Rightarrow> Inl e
                          | Inr in_flight_count \<Rightarrow>
                              (let total_count = message_count + in_flight_count
                               in if total_count \<noteq> 0
                                  then Inr (Some (message_count, in_flight_count, queue_url))
                                  else Inr None))))))"

section \<open>The terminal and the process\<close>

text \<open>
  What the process does to the outside is kept in a record: what it wrote to the terminal,
  the service calls it made, the pending keyboard input, and the terminal's input mode.
  One element of \<open>stdin\<close> is what one \<open>select\<close> with a one-second timeout observes:
  nothing, a key, or end of input. When the list is used up no input arrives any more.
  Standard input is a terminal, so that reading and setting its mode succeeds. Interrupt
  signals are asynchronous and are not part of this model.
\<close>

datatype term_event = Write string | ClearScreen

datatype sqs_call = ListQueues | GetQueueAttributes string "string list"

datatype key_event = NoInput | Key char | Eof

record world =
  stdout :: "term_event list"
  calls :: "sqs_call list"
  stdin :: "key_event list"
  cbreak :: bool

definition print_end :: "string \<Rightarrow> world \<Rightarrow> world" where
  "print_end s w = w\<lparr>stdout := stdout w @ [Write s]\<rparr>"

definition print_line :: "string \<Rightarrow> world \<Rightarrow> world" where
  "print_line s w = print_end (s @ [CHR 0x0A]) w"

definition BOLD :: string where
  "BOLD = CHR 0x1B # ''[1m''"

definition GREEN :: string where
  "GREEN = CHR 0x1B # ''[92m''"

definition RESET :: string where
  "RESET = CHR 0x1B # ''[0m''"

definition clear_line :: "world \<Rightarrow> world" where
  "clear_line w = print_end ([CHR 0x0D] @ replicate 60 CHR '' '' @ [CHR 0x0D]) w"

definition quit :: "world \<Rightarrow> (py_exception + 'a) \<times> world" where
  "quit w = (Inl (SystemExit 0), print_line (BOLD @ GREEN @ ''Program terminated by user.'' @ RESET) w)"

section \<open>\<open>get_queue_infos\<close>\<close>

text \<open>
  The thread pool runs one \<open>check_queue\<close> per URL. \<open>as_completed\<close> hands the futures over
  in the order they finish, which the program does not control: the order is a parameter,
  a list of positions into the list of futures.
\<close>

definition as_completed :: "nat list \<Rightarrow> 'a list \<Rightarrow> 'a list" where
  "as_completed sched futures = map (\<lambda>i. futures ! i) (filter (\<lambda>i. i < length futures) sched)"

definition progress_text :: "nat \<Rightarrow> nat \<Rightarrow> string" where
  "progress_text processed_queues total_queues =
     [CHR 0x0D] @ ''Processed '' @ BOLD @ str_nat processed_queues @ RESET @ '' out of '' @
     BOLD @ str_nat total_queues @ RESET @ '' queues...''"

fun collect_results ::
  "nat \<Rightarrow> nat \<Rightarrow> (py_exception + snapshot option) list \<Rightarrow> snapshot list \<Rightarrow> world
   \<Rightarrow> (py_exception + snapshot list) \<times> world" where
  "collect_results total_queues processed_queues [] results w = (Inr results, w)"
| "collect_results total_queues processed_queues (future # rest) results w =
     (let processed_queues' = processed_queues + 1;
          w' = print_end (progress_text processed_queues' total_queues) w
      in case future of
           Inl e \<Rightarrow> (Inl e, w')
         | Inr result \<Rightarrow>
             (case result of
                None \<Rightarrow> collect_results total_queues processed_queues' rest results w'
              | Some r \<Rightarrow> collect_results total_queues processed_queues' rest (results @ [r]) w'))"

definition get_queue_infos ::
  "sqs_client \<Rightarrow> nat list \<Rightarrow> string list \<Rightarrow> int \<Rightarrow> bool \<Rightarrow> world
   \<Rightarrow> (py_exception + snapshot list) \<times> world" where
  "get_queue_infos sqs sched queue_urls workers include_in_flight w =
     (if workers \<le> 0 then (Inl (ValueError ''max_workers must be greater than 0''), w)
      else
        let total_queues = length queue_urls;
            futures = map (\<lambda>url. check_queue sqs url include_in_flight) queue_urls;
            w' = w\<lparr>calls := calls w @
                   map (\<lambda>url. GetQueueAttributes url (attribute_names include_in_flight)) queue_urls\<rparr>
        in collect_results total_queues 0 (as_completed sched futures) [] w')"

section \<open>\<open>display_results\<close>\<close>

text \<open>\<open>urllib.parse.quote(s, safe='')\<close>: everything but letters, digits and \<open>_.-~\<close> is escaped.\<close>

definition unreserved :: "char \<Rightarrow> bool" where
  "unreserved c \<longleftrightarrow>
     (CHR ''A'' \<le> c \<and> c \<le> CHR ''Z'') \<or> (CHR ''a'' \<le> c \<and> c \<le> CHR ''z'') \<or>
     (CHR ''0'' \<le> c \<and> c \<le> CHR ''9'') \<or> c \<in> set ''_.-~''"

definition hex_digit :: "nat \<Rightarrow> char" where
  "hex_digit d = ''0123456789ABCDEF'' ! (d mod 16)"

definition quote_char :: "char \<Rightarrow> string" where
  "quote_char c =
     (if unreserved c then [c]
      else [CHR ''%'', hex_digit (of_char c div 16), hex_digit (of_char c mod 16)])"

definition quote :: "string \<Rightarrow> string" where
  "quote s = concat (map quote_char s)"

text \<open>A row \<open>(base_name, message_count, in_flight_count, total_count, link)\<close>.\<close>

type_synonym display_row = "string \<times> int \<times> int \<times> int \<times> string"

definition row_name :: "display_row \<Rightarrow> string" where
  "row_name x = fst x"

definition row_count :: "display_row \<Rightarrow> int" where
  "row_count x = fst (snd x)"

definition row_in_flight :: "display_row \<Rightarrow> int" where
  "row_in_flight x = fst (snd (snd x))"

definition row_total :: "display_row \<Rightarrow> int" where
  "row_total x = fst (snd (snd (snd x)))"

definition row_link :: "display_row \<Rightarrow> string" where
  "row_link x = snd (snd (snd (snd x)))"

definition console_link_of :: "string option \<Rightarrow> string" where
  "console_link_of current_region =
     ''https://console.aws.amazon.com/sqs/v2/home?region='' @
     (case current_region of None \<Rightarrow> ''None'' | Some r \<Rightarrow> r)"

fun displayable_loop :: "string \<Rightarrow> snapshot list \<Rightarrow> display_row list \<Rightarrow> display_row list" where
  "displayable_loop console_link [] displayable_results = displayable_results"
| "displayable_loop console_link ((message_count, in_flight_count, queue_url) # rest)
       displayable_results =
     (let base_name = last (split CHR ''/'' queue_url);
          link = console_link @ ''#/queues/'' @ quote queue_url;
          total_count = message_count + in_flight_count
      in displayable_loop console_link rest
           (displayable_results @ [(base_name, message_count, in_flight_count, total_count, link)]))"

definition sort_rows :: "display_row list \<Rightarrow> display_row list" where
  "sort_rows displayable_results =
     sort_key (\<lambda>x. (- row_total x, row_name x)) displayable_results"

text \<open>\<open>max\<close> over a generator; the call sites are guarded by \<open>if results\<close>.\<close>

definition max_of :: "('a \<Rightarrow> 'b::linorder) \<Rightarrow> 'a \<Rightarrow> 'a list \<Rightarrow> 'b" where
  "max_of f x xs = fold max (map f xs) (f x)"

record widths =
  max_base_name_length :: nat
  max_message_count_length :: nat
  max_in_flight_length :: nat
  max_total_length :: nat

definition column_widths :: "bool \<Rightarrow> display_row \<Rightarrow> display_row list \<Rightarrow> widths" where
  "column_widths include_in_flight r rs =
     \<lparr> max_base_name_length = max_of (\<lambda>x. length (row_name x)) r rs,
       max_message_count_length = length (str_int (max_of row_count r rs)),
       max_in_flight_length =
         (if include_in_flight then length (str_int (max_of row_in_flight r rs)) else 0),
       max_total_length = length (str_int (max_of row_total r rs)) \<rparr>"

definition display_name :: "widths \<Rightarrow> display_row \<Rightarrow> string" where
  "display_name ws x = ljust (max_base_name_length ws) (row_name x)"

definition display_count :: "widths \<Rightarrow> display_row \<Rightarrow> string" where
  "display_count ws x = rjust (max_message_count_length ws) (str_int (row_count x))"

definition display_in_flight :: "widths \<Rightarrow> display_row \<Rightarrow> string" where
  "display_in_flight ws x = rjust (max_in_flight_length ws) (str_int (row_in_flight x))"

definition display_total :: "widths \<Rightarrow> display_row \<Rightarrow> string" where
  "display_total ws x = rjust (max_total_length ws) (str_int (row_total x))"

definition row_text :: "bool \<Rightarrow> widths \<Rightarrow> display_row \<Rightarrow> string" where
  "row_text include_in_flight ws x =
     (if include_in_flight then
        BOLD @ display_name ws x @ RESET @ '': '' @ GREEN @ display_count ws x @ '' msgs'' @ RESET @
        '', '' @ GREEN @ display_in_flight ws x @ '' in-flight'' @ RESET @
        '', '' @ GREEN @ display_total ws x @ '' total'' @ RESET @
        [CHR 0x0A] @ ''    '' @ row_link x
      else
        BOLD @ display_name ws x @ RESET @ '': '' @ GREEN @ display_count ws x @ '' msgs'' @ RESET @
        [CHR 0x0A] @ ''    '' @ row_link x)"

fun print_rows :: "bool \<Rightarrow> widths \<Rightarrow> display_row list \<Rightarrow> world \<Rightarrow> world" where
  "print_rows include_in_flight ws [] w = w"
| "print_rows include_in_flight ws (x # xs) w =
     print_rows include_in_flight ws xs (print_line (row_text include_in_flight ws x) w)"

definition display_results :: "string option \<Rightarrow> snapshot list \<Rightarrow> bool \<Rightarrow> world \<Rightarrow> world" where
  "display_results current_region results include_in_flight w =
     (let console_link = console_link_of current_region;
          displayable_results = displayable_loop console_link results [];
          sorted_display_results = sort_rows displayable_results;
          w' = clear_line w
      in if results \<noteq> [] then
           (case sorted_display_results of
              [] \<Rightarrow> w'
            | r # rs \<Rightarrow> print_rows include_in_flight (column_widths include_in_flight r rs)
                         sorted_display_results w')
         else print_line (BOLD @ ''No messages found in any queue.'' @ RESET) w')"

section \<open>\<open>countdown\<close>\<close>

definition countdown_text :: "nat \<Rightarrow> nat \<Rightarrow> string" where
  "countdown_text duration_len i =
     [CHR 0x0D] @ ''Refresh in '' @ rjust duration_len (str_nat i) @
     '' seconds (press '' @ [CHR 0x27] @ ''R'' @ [CHR 0x27] @ '' to force refresh)''"

text \<open>\<open>sys.stdin.read(1).lower()\<close>: one character, or the empty string at end of input.\<close>

definition read_key :: "key_event \<Rightarrow> string" where
  "read_key ev = (case ev of Key c \<Rightarrow> [lower_char c] | _ \<Rightarrow> [])"

text \<open>
  The body of the \<open>for i in range(duration, 0, -1)\<close> loop; the second argument counts down
  from \<open>duration\<close> to 1. \<open>Inr True\<close> is the \<open>return True\<close> inside the loop, \<open>Inr False\<close> the
  \<open>return False\<close> after it.
\<close>

fun countdown_loop :: "nat \<Rightarrow> nat \<Rightarrow> world \<Rightarrow> (py_exception + bool) \<times> world" where
  "countdown_loop duration_len 0 w = (Inr False, w)"
| "countdown_loop duration_len (Suc n) w =
     (let w1 = print_end (countdown_text duration_len (Suc n)) w
      in case stdin w1 of
           [] \<Rightarrow> countdown_loop duration_len n w1
         | NoInput # rest \<Rightarrow> countdown_loop duration_len n (w1\<lparr>stdin := rest\<rparr>)
         | ev # rest \<Rightarrow>
             (let key = read_key ev;
                  w2 = clear_line (w1\<lparr>stdin := rest\<rparr>)
              in if key = ''r'' then (Inr True, w2)
                 else if key = ''q'' then quit w2
                 else countdown_loop duration_len n w2))"

definition countdown :: "int \<Rightarrow> world \<Rightarrow> (py_exception + bool) \<times> world" where
  "countdown duration w =
     (let original_settings = cbreak w;
          w0 = w\<lparr>cbreak := True\<rparr>;
          duration_len = length (str_int duration);
          (r, w1) = countdown_loop duration_len (nat duration) w0
      in (r, w1\<lparr>cbreak := original_settings\<rparr>))"

section \<open>\<open>filter_queues_by_pattern\<close>\<close>

text \<open>
  Python's \<open>re\<close> module is a library, not code of the script: \<open>re.compile(pattern, flags)\<close>
  and \<open>regex.search(s)\<close> are parameters. The flag says whether \<open>re.IGNORECASE\<close> is set;
  \<open>Inl\<close> is \<open>re.error\<close> with its message.
\<close>

record 'rx re_module =
  re_compile :: "string \<Rightarrow> bool \<Rightarrow> string + 'rx"
  re_search :: "'rx \<Rightarrow> string \<Rightarrow> bool"

fun filter_loop :: "'rx re_module \<Rightarrow> 'rx \<Rightarrow> string list \<Rightarrow> string list \<Rightarrow> string list" where
  "filter_loop re regex [] filtered_urls = filtered_urls"
| "filter_loop re regex (url # rest) filtered_urls =
     (let queue_name = last (split CHR ''/'' url)
      in if re_search re regex queue_name
         then filter_loop re regex rest (filtered_urls @ [url])
         else filter_loop re regex rest filtered_urls)"

definition invalid_pattern_text :: "string \<Rightarrow> string \<Rightarrow> string" where
  "invalid_pattern_text p e =
     ''Error: Invalid regex pattern '' @ [CHR 0x27] @ p @ [CHR 0x27] @ '': '' @ e"

definition filter_queues_by_pattern ::
  "'rx re_module \<Rightarrow> string list \<Rightarrow> string option \<Rightarrow> world \<Rightarrow> (py_exception + string list) \<times> world" where
  "filter_queues_by_pattern re queue_urls pat w =
     (case pat of
        None \<Rightarrow> (Inr queue_urls, w)
      | Some p \<Rightarrow>
          if p = [] then (Inr queue_urls, w)
          else
            (case re_compile re p True of
               Inl e \<Rightarrow> (Inl (SystemExit 1), print_line (invalid_pattern_text p e) w)
             | Inr regex \<Rightarrow> (Inr (filter_loop re regex queue_urls []), w)))"

section \<open>\<open>main\<close>\<close>

record args =
  arg_watch :: "int option"
  arg_workers :: int
  arg_include_in_flight :: bool
  arg_pattern :: "string option"

text \<open>
  What the run depends on and does not control: the regular expression library, the
  service as the n-th poll cycle sees it, the region of the session, and the order in which
  the fetches of the n-th cycle finish.
\<close>

record 'rx env =
  env_re :: "'rx re_module"
  env_sqs :: "nat \<Rightarrow> sqs_client"
  env_region :: "string option"
  env_sched :: "nat \<Rightarrow> nat list"

definition filtered_text :: "nat \<Rightarrow> nat \<Rightarrow> string \<Rightarrow> string" where
  "filtered_text original_count filtered_count p =
     ''Filtered '' @ str_nat original_count @ '' queues to '' @ str_nat filtered_count @
     '' matching pattern '' @ [CHR 0x27] @ p @ [CHR 0x27]"

text \<open>
  The \<open>while True\<close> loop of watch mode. It ends only by an exception (\<open>SystemExit\<close> from the
  quit key included); \<open>None\<close> says that the loop is still running after \<open>fuel\<close> cycles.
\<close>

fun watch_loop ::
  "'rx env \<Rightarrow> args \<Rightarrow> int \<Rightarrow> string list \<Rightarrow> nat \<Rightarrow> nat \<Rightarrow> world
   \<Rightarrow> (py_exception + unit) option \<times> world" where
  "watch_loop env a interval queue_urls cycle 0 w = (None, w)"
| "watch_loop env a interval queue_urls cycle (Suc fuel) w =
     (case get_queue_infos (env_sqs env cycle) (env_sched env cycle) queue_urls
             (arg_workers a) (arg_include_in_flight a) w of
        (Inl e, w1) \<Rightarrow> (Some (Inl e), w1)
      | (Inr results, w1) \<Rightarrow>
          (let w2 = w1\<lparr>stdout := stdout w1 @ [ClearScreen]\<rparr>;
               w3 = display_results (env_region env) results (arg_include_in_flight a) w2
           in case countdown interval w3 of
                (Inl e, w4) \<Rightarrow> (Some (Inl e), w4)
              | (Inr forced, w4) \<Rightarrow> watch_loop env a interval queue_urls (Suc cycle) fuel w4))"

definition poll_once ::
  "'rx env \<Rightarrow> args \<Rightarrow> string list \<Rightarrow> world \<Rightarrow> (py_exception + unit) \<times> world" where
  "poll_once env a queue_urls w =
     (case get_queue_infos (env_sqs env 0) (env_sched env 0) queue_urls
             (arg_workers a) (arg_include_in_flight a) w of
        (Inl e, w1) \<Rightarrow> (Inl e, w1)
      | (Inr results, w1) \<Rightarrow>
          (let w2 = display_results (env_region env) results (arg_include_in_flight a) w1
           in if results \<noteq> [] then (Inl (SystemExit 1), w2) else (Inr (), w2)))"

definition after_listing ::
  "'rx env \<Rightarrow> args \<Rightarrow> nat \<Rightarrow> string list \<Rightarrow> world \<Rightarrow> (py_exception + unit) option \<times> world" where
  "after_listing env a fuel queue_urls w =
     (case arg_watch a of
        None \<Rightarrow> (case poll_once env a queue_urls w of (r, w') \<Rightarrow> (Some r, w'))
      | Some interval \<Rightarrow> watch_loop env a interval queue_urls 0 fuel w)"

definition main :: "'rx env \<Rightarrow> args \<Rightarrow> nat \<Rightarrow> world \<Rightarrow> (py_exception + unit) option \<times> world" where
  "main env a fuel w =
     (let w1 = print_end ''Reading list of queues...'' w;
          w2 = w1\<lparr>calls := calls w1 @ [ListQueues]\<rparr>
      in case list_queues (env_sqs env 0) of
           Inl e \<Rightarrow> (Some (Inl e), w2)
         | Inr response \<Rightarrow>
             (let queue_urls = (case QueueUrls response of None \<Rightarrow> [] | Some us \<Rightarrow> us)
              in case arg_pattern a of
                   None \<Rightarrow> after_listing env a fuel queue_urls w2
                 | Some p \<Rightarrow>
                     if p = [] then after_listing env a fuel queue_urls w2
                     else
                       (let original_count = length queue_urls
                        in case filter_queues_by_pattern (env_re env) queue_urls (arg_pattern a) w2 of
                             (Inl e, w3) \<Rightarrow> (Some (Inl e), w3)
                           | (Inr queue_urls', w3) \<Rightarrow>
                               (let filtered_count = length queue_urls';
                                    w4 = clear_line w3;
                                    w5 = print_line (filtered_text original_count filtered_count p) w4
                                in after_listing env a fuel queue_urls' w5))))"

text \<open>
  The status the process ends with: 0 after a normal return, the argument of \<open>sys.exit\<close>,
  and 1 when another exception reaches the top level.
\<close>

definition exit_status :: "py_exception + unit \<Rightarrow> int" where
  "exit_status r = (case r of Inr u \<Rightarrow> 0 | Inl (SystemExit n) \<Rightarrow> n | Inl e \<Rightarrow> 1)"

section \<open>Notions of the specification\<close>

text \<open>The total of a snapshot: visible plus in-flight messages.\<close>

definition snapshot_total :: "snapshot \<Rightarrow> int" where
  "snapshot_total r = (case r of (message_count, in_flight_count, queue_url) \<Rightarrow>
     message_count + in_flight_count)"

definition snapshot_url :: "snapshot \<Rightarrow> string" where
  "snapshot_url r = (case r of (message_count, in_flight_count, queue_url) \<Rightarrow> queue_url)"

text \<open>The total that a fetch reads from the service, when the fetch gets that far.\<close>

definition fetched_total :: "sqs_client \<Rightarrow> string \<Rightarrow> bool \<Rightarrow> int option" where
  "fetched_total sqs queue_url include_in_flight =
     (case get_queue_attributes sqs queue_url (attribute_names include_in_flight) of
        Inl e \<Rightarrow> None
      | Inr response \<Rightarrow>
          (case Attributes response of
             None \<Rightarrow> None
           | Some attrs \<Rightarrow>
               (case map_of attrs ''ApproximateNumberOfMessages'' of
                  None \<Rightarrow> None
                | Some v \<Rightarrow>
                    (case (py_int v, in_flight_of include_in_flight attrs) of
                       (Inr message_count, Inr in_flight_count) \<Rightarrow>
                         Some (message_count + in_flight_count)
                     | _ \<Rightarrow> None))))"

text \<open>
  The counts of the data model are non-negative. For a response of the service this says
  that no attribute value reads as a negative number.
\<close>

definition nonneg_value :: "string \<Rightarrow> bool" where
  "nonneg_value v = (case py_int v of Inl e \<Rightarrow> True | Inr n \<Rightarrow> 0 \<le> n)"

definition nonneg_response :: "py_exception + qa_response \<Rightarrow> bool" where
  "nonneg_response r =
     (case r of
        Inl e \<Rightarrow> True
      | Inr response \<Rightarrow>
          (case Attributes response of
             None \<Rightarrow> True
           | Some attrs \<Rightarrow> list_all (\<lambda>kv. nonneg_value (snd kv)) attrs))"

definition nonneg_snapshot :: "snapshot \<Rightarrow> bool" where
  "nonneg_snapshot r = (case r of (message_count, in_flight_count, queue_url) \<Rightarrow>
     0 \<le> message_count \<and> 0 \<le> in_flight_count)"

text \<open>The row of a snapshot, as the presenter's first loop builds it.\<close>

definition row_of :: "string \<Rightarrow> snapshot \<Rightarrow> display_row" where
  "row_of console_link r = (case r of (message_count, in_flight_count, queue_url) \<Rightarrow>
     (last (split CHR ''/'' queue_url), message_count, in_flight_count,
      message_count + in_flight_count, console_link @ ''#/queues/'' @ quote queue_url))"

text \<open>The order of the rows: larger total first, equal totals by name.\<close>

definition row_before :: "display_row \<Rightarrow> display_row \<Rightarrow> bool" where
  "row_before x y \<longleftrightarrow>
     row_total y < row_total x \<or> (row_total x = row_total y \<and> row_name x \<le> row_name y)"

section \<open>Stand-ins for the collaborators\<close>

text \<open>
  A service given by a table: a listed queue either has a visible and an in-flight count
  or has been deleted since the listing. Like the real service it answers with the
  requested attributes only.
\<close>

definition attributes_of_counts :: "nat \<times> nat \<Rightarrow> string list \<Rightarrow> (string \<times> string) list" where
  "attributes_of_counts c names =
     filter (\<lambda>kv. fst kv \<in> set names)
       [(''ApproximateNumberOfMessages'', str_nat (fst c)),
        (''ApproximateNumberOfMessagesNotVisible'', str_nat (snd c))]"

definition table_sqs :: "(string \<times> (nat \<times> nat) option) list \<Rightarrow> sqs_client" where
  "table_sqs t =
     \<lparr> list_queues = Inr \<lparr> QueueUrls = (if t = [] then None else Some (map fst t)) \<rparr>,
       get_queue_attributes = (\<lambda>url names.
         (case map_of t url of
            Some (Some c) \<Rightarrow> Inr \<lparr> Attributes = Some (attributes_of_counts c names) \<rparr>
          | _ \<Rightarrow> Inl QueueDoesNotExist)) \<rparr>"

text \<open>
  A regular expression library that knows literal patterns with an optional leading \<open>^\<close>
  only, and rejects every pattern with another special character.
\<close>

datatype lit_regex = LitRegex bool bool string

definition is_special :: "char \<Rightarrow> bool" where
  "is_special c \<longleftrightarrow> c \<in> set (''.^$*+?{}[]|()'' @ [CHR 0x5C])"

definition lit_compile :: "string \<Rightarrow> bool \<Rightarrow> string + lit_regex" where
  "lit_compile p ignorecase =
     (let anchored = (take 1 p = ''^'');
          body = (if anchored then drop 1 p else p)
      in if list_ex is_special body then Inl ''unsupported pattern''
         else Inr (LitRegex ignorecase anchored body))"

fun lit_search :: "lit_regex \<Rightarrow> string \<Rightarrow> bool" where
  "lit_search (LitRegex ignorecase anchored body) s =
     (let b = (if ignorecase then map lower_char body else body);
          t = (if ignorecase then map lower_char s else s)
      in if anchored then take (length b) t = b
         else list_ex (\<lambda>k. take (length b) (drop k t) = b) [0..<Suc (length t)])"

definition lit_re :: "lit_regex re_module" where
  "lit_re = \<lparr> re_compile = lit_compile, re_search = lit_search \<rparr>"

definition world0 :: world where
  "world0 = \<lparr> stdout = [], calls = [], stdin = [], cbreak = False \<rparr>"

definition demo_table :: "(string \<times> (nat \<times> nat) option) list" where
  "demo_table =
     [(''https://sqs/1/orders'', Some (3, 7)),
      (''https://sqs/1/idle'', Some (0, 0)),
      (''https://sqs/1/gone'', None)]"

definition demo_env :: "lit_regex env" where
  "demo_env =
     \<lparr> env_re = lit_re, env_sqs = (\<lambda>cycle. table_sqs demo_table),
       env_region = Some ''eu-west-1'', env_sched = (\<lambda>cycle. [2, 0, 1]) \<rparr>"

definition demo_args :: args where
  "demo_args =
     \<lparr> arg_watch = None, arg_workers = 4, arg_include_in_flight = False, arg_pattern = None \<rparr>"

section \<open>Facts about \<open>check_queue\<close> and \<open>get_queue_infos\<close>\<close>

lemma check_queue_SomeE:
  assumes "check_queue sqs url f = Inr (Some r)"
  obtains response attrs v m i where
    "get_queue_attributes sqs url (attribute_names f) = Inr response"
    "Attributes response = Some attrs"
    "map_of attrs ''ApproximateNumberOfMessages'' = Some v"
    "py_int v = Inr m"
    "in_flight_of f attrs = Inr i"
    "r = (m, i, url)"
    "m + i \<noteq> 0"
proof (cases "get_queue_attributes sqs url (attribute_names f)")
  case (Inl e)
  with assms show ?thesis
    by (cases e) (simp_all add: check_queue_def)
next
  case (Inr response)
  show ?thesis
  proof (cases "Attributes response")
    case None
    with Inr assms show ?thesis by (simp add: check_queue_def)
  next
    case (Some attrs)
    show ?thesis
    proof (cases "map_of attrs ''ApproximateNumberOfMessages''")
      case None
      with Inr Some assms show ?thesis by (simp add: check_queue_def)
    next
      case v: (Some v)
      show ?thesis
      proof (cases "py_int v")
        case (Inl e)
        with Inr Some v assms show ?thesis by (simp add: check_queue_def)
      next
        case m: (Inr m)
        show ?thesis
        proof (cases "in_flight_of f attrs")
          case (Inl e)
          with Inr Some v m assms show ?thesis by (simp add: check_queue_def)
        next
          case i: (Inr i)
          from Inr Some v m i assms have "m + i \<noteq> 0" "r = (m, i, url)"
            by (simp_all add: check_queue_def Let_def split: if_splits)
          with that Inr Some v m i show ?thesis by blast
        qed
      qed
    qed
  qed
qed

lemma check_queue_gone:
  "get_queue_attributes sqs url (attribute_names f) = Inl QueueDoesNotExist \<Longrightarrow>
   check_queue sqs url f = Inr None"
  by (simp add: check_queue_def)

lemma check_queue_zero:
  assumes "fetched_total sqs url f = Some 0"
  shows "check_queue sqs url f = Inr None"
proof -
  from assms obtain response attrs v m i where
    "get_queue_attributes sqs url (attribute_names f) = Inr response"
    "Attributes response = Some attrs"
    "map_of attrs ''ApproximateNumberOfMessages'' = Some v"
    "py_int v = Inr m" "in_flight_of f attrs = Inr i" "m + i = 0"
    by (auto simp: fetched_total_def split: sum.splits option.splits)
  then show ?thesis by (simp add: check_queue_def)
qed

lemma check_queue_Some_facts:
  assumes "check_queue sqs url f = Inr (Some r)"
  shows "snapshot_url r = url" and "snapshot_total r \<noteq> 0"
    and "fetched_total sqs url f = Some (snapshot_total r)"
    and "\<not> f \<Longrightarrow> fst (snd r) = 0"
proof -
  from assms obtain response attrs v m i where
    h: "get_queue_attributes sqs url (attribute_names f) = Inr response"
    "Attributes response = Some attrs"
    "map_of attrs ''ApproximateNumberOfMessages'' = Some v"
    "py_int v = Inr m" "in_flight_of f attrs = Inr i" "r = (m, i, url)" "m + i \<noteq> 0"
    by (rule check_queue_SomeE)
  from h show "snapshot_url r = url" by (simp add: snapshot_url_def)
  from h show "snapshot_total r \<noteq> 0" by (simp add: snapshot_total_def)
  from h show "fetched_total sqs url f = Some (snapshot_total r)"
    by (simp add: fetched_total_def snapshot_total_def)
  from h show "fst (snd r) = 0" if "\<not> f"
    using that by (simp add: in_flight_of_def)
qed

lemma check_queue_nonneg:
  assumes "check_queue sqs url f = Inr (Some r)"
    and "nonneg_response (get_queue_attributes sqs url (attribute_names f))"
  shows "nonneg_snapshot r"
proof -
  from assms(1) obtain response attrs v m i where
    resp: "get_queue_attributes sqs url (attribute_names f) = Inr response"
    and attrs: "Attributes response = Some attrs"
    and v: "map_of attrs ''ApproximateNumberOfMessages'' = Some v"
    and m: "py_int v = Inr m"
    and i: "in_flight_of f attrs = Inr i"
    and r: "r = (m, i, url)"
    by (rule check_queue_SomeE)
  from assms(2) resp attrs have all: "\<forall>kv\<in>set attrs. nonneg_value (snd kv)"
    by (simp add: nonneg_response_def list_all_iff)
  from v have "(''ApproximateNumberOfMessages'', v) \<in> set attrs" by (rule map_of_SomeD)
  with all have "nonneg_value v" by fastforce
  with m have m0: "0 \<le> m" by (simp add: nonneg_value_def)
  have i0: "0 \<le> i"
  proof (cases "map_of attrs ''ApproximateNumberOfMessagesNotVisible''")
    case None
    with i show ?thesis by (simp add: in_flight_of_def split: if_splits)
  next
    case (Some v')
    then have "(''ApproximateNumberOfMessagesNotVisible'', v') \<in> set attrs" by (rule map_of_SomeD)
    with all have nv: "nonneg_value v'" by fastforce
    show ?thesis
    proof (cases f)
      case True
      with Some i have "py_int v' = Inr i" by (simp add: in_flight_of_def)
      with nv show ?thesis by (simp add: nonneg_value_def)
    next
      case False
      with i show ?thesis by (simp add: in_flight_of_def)
    qed
  qed
  from m0 i0 r show ?thesis by (simp add: nonneg_snapshot_def)
qed

lemma collect_results_subset:
  "collect_results t p futs acc w = (Inr results, w') \<Longrightarrow>
   set results \<subseteq> set acc \<union> {r. Inr (Some r) \<in> set futs}"
proof (induction futs arbitrary: p acc w)
  case Nil
  then show ?case by simp
next
  case (Cons fut futs)
  show ?case
  proof (cases fut)
    case (Inl e)
    with Cons.prems show ?thesis by (simp add: Let_def)
  next
    case (Inr result)
    show ?thesis
    proof (cases result)
      case None
      with Inr Cons.prems have
        "collect_results t (p + 1) futs acc (print_end (progress_text (p + 1) t) w) = (Inr results, w')"
        by (simp add: Let_def)
      from Cons.IH [OF this] show ?thesis by auto
    next
      case (Some r)
      with Inr Cons.prems have
        "collect_results t (p + 1) futs (acc @ [r]) (print_end (progress_text (p + 1) t) w) = (Inr results, w')"
        by (simp add: Let_def)
      from Cons.IH [OF this] Inr Some show ?thesis by auto
    qed
  qed
qed

lemma set_as_completed: "set (as_completed sched futures) \<subseteq> set futures"
  by (auto simp: as_completed_def)

lemma get_queue_infos_from_check_queue:
  assumes "get_queue_infos sqs sched queue_urls workers f w = (Inr results, w')"
    and "r \<in> set results"
  shows "\<exists>url\<in>set queue_urls. check_queue sqs url f = Inr (Some r)"
proof -
  from assms(1) have
    "collect_results (length queue_urls) 0
       (as_completed sched (map (\<lambda>url. check_queue sqs url f) queue_urls)) []
       (w\<lparr>calls := calls w @ map (\<lambda>url. GetQueueAttributes url (attribute_names f)) queue_urls\<rparr>)
     = (Inr results, w')"
    unfolding get_queue_infos_def Let_def by (cases "workers \<le> 0") simp_all
  from collect_results_subset [OF this] assms(2)
  have "Inr (Some r) \<in> set (as_completed sched (map (\<lambda>url. check_queue sqs url f) queue_urls))"
    by auto
  with set_as_completed [of sched "map (\<lambda>url. check_queue sqs url f) queue_urls"]
  have "Inr (Some r) \<in> set (map (\<lambda>url. check_queue sqs url f) queue_urls)"
    by (rule subsetD)
  then have "Inr (Some r) \<in> (\<lambda>url. check_queue sqs url f) ` set queue_urls"
    by (simp only: set_map)
  then obtain url where url: "url \<in> set queue_urls" and "Inr (Some r) = check_queue sqs url f"
    by (rule imageE)
  then have "check_queue sqs url f = Inr (Some r)" by simp
  with url show ?thesis by (rule_tac x = url in bexI)
qed

lemma collect_results_no_raise:
  "\<forall>x\<in>set futs. \<exists>r. x = Inr r \<Longrightarrow> \<exists>results w'. collect_results t p futs acc w = (Inr results, w')"
proof (induction futs arbitrary: p acc w)
  case Nil
  then show ?case by simp
next
  case (Cons fut futs)
  then obtain result where fut: "fut = Inr result" by auto
  from Cons.prems have rest: "\<forall>x\<in>set futs. \<exists>r. x = Inr r" by simp
  show ?case
    using Cons.IH [OF rest] fut by (cases result) (simp_all add: Let_def)
qed

lemma demo_poll_True:
  "fst (get_queue_infos (table_sqs demo_table) [2, 0, 1] (map fst demo_table) 4 True world0)
     = Inr [(3, 7, ''https://sqs/1/orders'')]"
  by code_simp

lemma demo_nonneg:
  "\<forall>url\<in>set (map fst demo_table).
      nonneg_response (get_queue_attributes (table_sqs demo_table) url (attribute_names True))"
  by code_simp

lemma demo_idle: "fetched_total (table_sqs demo_table) ''https://sqs/1/idle'' True = Some 0"
  by code_simp

section \<open>The poll result holds queues with messages only\<close>

text \<open>
  Claim C1. Every snapshot in the result of \<open>get_queue_infos\<close> has a total (visible plus
  in-flight messages) greater than zero, and a queue whose fetched total is zero is not in
  the result. The counts are those of the data model: the responses of the service to this
  poll carry no negative number. The guard of \<open>check_queue\<close> itself is that the total is not
  zero.
\<close>

theorem get_queue_infos_total_positive:
  assumes nonneg: "\<forall>url\<in>set queue_urls.
      nonneg_response (get_queue_attributes sqs url (attribute_names include_in_flight))"
    and poll: "get_queue_infos sqs sched queue_urls workers include_in_flight w = (Inr results, w')"
  shows "(\<forall>r\<in>set results. 0 < snapshot_total r \<and> nonneg_snapshot r) \<and>
         (\<forall>url. fetched_total sqs url include_in_flight = Some 0 \<longrightarrow>
                url \<notin> snapshot_url ` set results)"
proof (intro conjI ballI allI impI)
  fix r assume r: "r \<in> set results"
  from get_queue_infos_from_check_queue [OF poll r] obtain url where
    url: "url \<in> set queue_urls" and cq: "check_queue sqs url include_in_flight = Inr (Some r)"
    by blast
  from nonneg url have "nonneg_response (get_queue_attributes sqs url (attribute_names include_in_flight))"
    by blast
  with cq show nn: "nonneg_snapshot r" by (rule check_queue_nonneg)
  from cq have "snapshot_total r \<noteq> 0" by (rule check_queue_Some_facts)
  moreover from nn have "0 \<le> snapshot_total r"
    by (cases r) (simp add: nonneg_snapshot_def snapshot_total_def)
  ultimately show "0 < snapshot_total r" by simp
next
  fix url assume zero: "fetched_total sqs url include_in_flight = Some 0"
  show "url \<notin> snapshot_url ` set results"
  proof
    assume "url \<in> snapshot_url ` set results"
    then obtain r where r: "r \<in> set results" and u: "url = snapshot_url r" by (rule imageE)
    from get_queue_infos_from_check_queue [OF poll r] obtain url' where
      cq: "check_queue sqs url' include_in_flight = Inr (Some r)" by blast
    from cq have "snapshot_url r = url'" by (rule check_queue_Some_facts)
    with u cq have "check_queue sqs url include_in_flight = Inr (Some r)" by simp
    moreover from zero have "check_queue sqs url include_in_flight = Inr None"
      by (rule check_queue_zero)
    ultimately show False by simp
  qed
qed

theorem get_queue_infos_total_positive_witness:
  "list_all (\<lambda>url. nonneg_response
       (get_queue_attributes (table_sqs demo_table) url (attribute_names True)))
     (map fst demo_table) \<and>
   fst (get_queue_infos (table_sqs demo_table) [2, 0, 1] (map fst demo_table) 4 True world0)
     = Inr [(3, 7, ''https://sqs/1/orders'')] \<and>
   fetched_total (table_sqs demo_table) ''https://sqs/1/idle'' True = Some 0 \<and>
   0 < snapshot_total (3, 7, ''https://sqs/1/orders'') \<and>
   ''https://sqs/1/idle'' \<notin> snapshot_url ` set [(3, 7, ''https://sqs/1/orders'')]"
proof -
  have poll: "get_queue_infos (table_sqs demo_table) [2, 0, 1] (map fst demo_table) 4 True world0
      = (Inr [(3, 7, ''https://sqs/1/orders'')],
         snd (get_queue_infos (table_sqs demo_table) [2, 0, 1] (map fst demo_table) 4 True world0))"
    using demo_poll_True by (simp add: prod_eq_iff)
  from get_queue_infos_total_positive [OF demo_nonneg poll] demo_idle
  have "0 < snapshot_total (3, 7, ''https://sqs/1/orders'')"
    and "''https://sqs/1/idle'' \<notin> snapshot_url ` set [(3, 7, ''https://sqs/1/orders'')]"
    by simp_all
  with demo_nonneg demo_poll_True demo_idle show ?thesis
    unfolding list_all_iff by blast
qed

section \<open>A deleted queue is skipped\<close>

lemma get_queue_infos_no_raise:
  assumes "0 < workers"
    and "\<forall>url\<in>set queue_urls. \<exists>r. check_queue sqs url f = Inr r"
  shows "\<exists>results w'. get_queue_infos sqs sched queue_urls workers f w = (Inr results, w')"
proof -
  have "\<forall>x\<in>set (map (\<lambda>url. check_queue sqs url f) queue_urls). \<exists>r. x = Inr r"
    using assms(2) by simp
  with set_as_completed [of sched "map (\<lambda>url. check_queue sqs url f) queue_urls"]
  have "\<forall>x\<in>set (as_completed sched (map (\<lambda>url. check_queue sqs url f) queue_urls)). \<exists>r. x = Inr r"
    by blast
  from collect_results_no_raise [OF this] assms(1) show ?thesis
    by (simp add: get_queue_infos_def Let_def)
qed

lemma demo_gone:
  "get_queue_attributes (table_sqs demo_table) ''https://sqs/1/gone'' (attribute_names False)
     = Inl QueueDoesNotExist"
  by code_simp

lemma demo_poll_False:
  "fst (get_queue_infos (table_sqs demo_table) [2, 0, 1] (map fst demo_table) 4 False world0)
     = Inr [(3, 0, ''https://sqs/1/orders'')]"
  by code_simp

lemma demo_check_orders:
  "check_queue (table_sqs demo_table) ''https://sqs/1/orders'' False
     = Inr (Some (3, 0, ''https://sqs/1/orders''))"
  by code_simp

lemma demo_check_idle:
  "check_queue (table_sqs demo_table) ''https://sqs/1/idle'' False = Inr None"
  by code_simp

text \<open>
  Claim C6. When the service answers an attribute fetch with \<open>QueueDoesNotExist\<close>,
  \<open>check_queue\<close> returns \<open>None\<close> and raises nothing; the poll goes on, so that it returns a
  result whenever the fetches of the other queues raise nothing; and the queue is in no
  result of the poll.
\<close>

theorem deleted_queue_is_skipped:
  assumes gone: "get_queue_attributes sqs gone (attribute_names f) = Inl QueueDoesNotExist"
  shows "check_queue sqs gone f = Inr None \<and>
    (\<forall>results w'. get_queue_infos sqs sched queue_urls workers f w = (Inr results, w') \<longrightarrow>
        gone \<notin> snapshot_url ` set results) \<and>
    (0 < workers \<and> (\<forall>url\<in>set queue_urls. url \<noteq> gone \<longrightarrow> (\<exists>r. check_queue sqs url f = Inr r)) \<longrightarrow>
       (\<exists>results w'. get_queue_infos sqs sched queue_urls workers f w = (Inr results, w')))"
proof (intro conjI allI impI)
  from gone show none: "check_queue sqs gone f = Inr None" by (rule check_queue_gone)
  {
    fix results w'
    assume poll: "get_queue_infos sqs sched queue_urls workers f w = (Inr results, w')"
    show "gone \<notin> snapshot_url ` set results"
    proof
      assume "gone \<in> snapshot_url ` set results"
      then obtain r where r: "r \<in> set results" and u: "gone = snapshot_url r" by (rule imageE)
      from get_queue_infos_from_check_queue [OF poll r] obtain url where
        cq: "check_queue sqs url f = Inr (Some r)" by blast
      from cq have "snapshot_url r = url" by (rule check_queue_Some_facts)
      with u cq none show False by simp
    qed
  }
  {
    assume h: "0 < workers \<and> (\<forall>url\<in>set queue_urls. url \<noteq> gone \<longrightarrow> (\<exists>r. check_queue sqs url f = Inr r))"
    with none have "\<forall>url\<in>set queue_urls. \<exists>r. check_queue sqs url f = Inr r" by metis
    with h show "\<exists>results w'. get_queue_infos sqs sched queue_urls workers f w = (Inr results, w')"
      by (intro get_queue_infos_no_raise) simp_all
  }
qed

theorem deleted_queue_is_skipped_witness:
  "get_queue_attributes (table_sqs demo_table) ''https://sqs/1/gone'' (attribute_names False)
     = Inl QueueDoesNotExist \<and>
   (0::int) < 4 \<and>
   map fst demo_table = [''https://sqs/1/orders'', ''https://sqs/1/idle'', ''https://sqs/1/gone''] \<and>
   check_queue (table_sqs demo_table) ''https://sqs/1/orders'' False
     = Inr (Some (3, 0, ''https://sqs/1/orders'')) \<and>
   check_queue (table_sqs demo_table) ''https://sqs/1/idle'' False = Inr None \<and>
   check_queue (table_sqs demo_table) ''https://sqs/1/gone'' False = Inr None \<and>
   fst (get_queue_infos (table_sqs demo_table) [2, 0, 1] (map fst demo_table) 4 False world0)
     = Inr [(3, 0, ''https://sqs/1/orders'')] \<and>
   ''https://sqs/1/gone'' \<notin> snapshot_url ` set [(3, 0, ''https://sqs/1/orders'')]"
proof -
  note inst = deleted_queue_is_skipped [OF demo_gone, of "[2, 0, 1]" "map fst demo_table" 4 world0]
  have poll: "get_queue_infos (table_sqs demo_table) [2, 0, 1] (map fst demo_table) 4 False world0
      = (Inr [(3, 0, ''https://sqs/1/orders'')],
         snd (get_queue_infos (table_sqs demo_table) [2, 0, 1] (map fst demo_table) 4 False world0))"
    using demo_poll_False by (simp add: prod_eq_iff)
  from inst have "check_queue (table_sqs demo_table) ''https://sqs/1/gone'' False = Inr None"
    by (rule conjunct1)
  moreover from inst poll
  have "''https://sqs/1/gone'' \<notin> snapshot_url ` set [(3, 0, ''https://sqs/1/orders'')]"
    by blast
  moreover have urls: "map fst demo_table
      = [''https://sqs/1/orders'', ''https://sqs/1/idle'', ''https://sqs/1/gone'']"
    by (simp add: demo_table_def)
  moreover have "\<forall>url\<in>set (map fst demo_table). url \<noteq> ''https://sqs/1/gone'' \<longrightarrow>
      (\<exists>r. check_queue (table_sqs demo_table) url False = Inr r)"
    unfolding urls using demo_check_orders demo_check_idle by simp
  with inst have "\<exists>results w'.
      get_queue_infos (table_sqs demo_table) [2, 0, 1] (map fst demo_table) 4 False world0
        = (Inr results, w')"
    by simp
  ultimately show ?thesis
    using demo_gone demo_poll_False demo_check_orders demo_check_idle by simp
qed

section \<open>Totals and the in-flight count\<close>

lemma displayable_loop_rows:
  "displayable_loop console_link results acc = acc @ map (row_of console_link) results"
proof (induction results arbitrary: acc)
  case Nil
  show ?case by simp
next
  case (Cons r results)
  obtain m i u where r: "r = (m, i, u)" by (cases r)
  show ?case unfolding r by (simp add: Cons.IH row_of_def Let_def)
qed

lemma row_of_fields:
  "row_count (row_of console_link r) = fst r"
  "row_in_flight (row_of console_link r) = fst (snd r)"
  "row_total (row_of console_link r) = snapshot_total r"
  "row_name (row_of console_link r) = last (split CHR ''/'' (snapshot_url r))"
  by (cases r; simp add: row_of_def row_count_def row_in_flight_def row_total_def row_name_def
        snapshot_total_def snapshot_url_def)+

lemma py_int_3: "py_int ''3'' = Inr 3"
  by code_simp

lemma py_int_7: "py_int ''7'' = Inr 7"
  by code_simp

lemma str_nat_3: "str_nat 3 = ''3''"
  by code_simp

lemma str_nat_7: "str_nat 7 = ''7''"
  by code_simp

lemma check_queue_3_7:
  assumes "get_queue_attributes sqs url (attribute_names f)
      = Inr \<lparr>Attributes = Some (attributes_of_counts (3, 7) (attribute_names f))\<rparr>"
  shows "check_queue sqs url f = Inr (Some (3, (if f then 7 else 0), url))"
proof (cases f)
  case True
  with assms show ?thesis
    by (simp add: check_queue_def attributes_of_counts_def attribute_names_def in_flight_of_def
        str_nat_3 str_nat_7 py_int_3 py_int_7)
next
  case False
  with assms show ?thesis
    by (simp add: check_queue_def attributes_of_counts_def attribute_names_def in_flight_of_def
        str_nat_3 str_nat_7 py_int_3 py_int_7)
qed

lemma demo_orders_response:
  "get_queue_attributes (table_sqs demo_table) ''https://sqs/1/orders'' (attribute_names f)
     = Inr \<lparr>Attributes = Some (attributes_of_counts (3, 7) (attribute_names f))\<rparr>"
  by (simp add: table_sqs_def demo_table_def)

text \<open>
  Claim C5. The total of a snapshot that \<open>check_queue\<close> returns is its visible count plus
  its in-flight count, in the fetch and in the row the presenter builds from it; without
  \<open>include_in_flight\<close> the in-flight count is zero and the in-flight attribute is not among
  the requested names. A queue that answers with the requested attributes out of visible 3
  and in-flight 7 gives total 3 without \<open>include_in_flight\<close> and total 10 with it.
\<close>

theorem check_queue_total_and_in_flight:
  "(check_queue sqs url f = Inr (Some r) \<longrightarrow>
      snapshot_url r = url \<and>
      fetched_total sqs url f = Some (snapshot_total r) \<and>
      snapshot_total r = fst r + fst (snd r) \<and>
      displayable_loop console_link [r] [] = [row_of console_link r] \<and>
      row_total (row_of console_link r) =
        row_count (row_of console_link r) + row_in_flight (row_of console_link r) \<and>
      row_count (row_of console_link r) = fst r \<and>
      row_in_flight (row_of console_link r) = fst (snd r) \<and>
      (\<not> f \<longrightarrow> fst (snd r) = 0)) \<and>
   attribute_names False = [''ApproximateNumberOfMessages''] \<and>
   attribute_names True =
     [''ApproximateNumberOfMessages'', ''ApproximateNumberOfMessagesNotVisible''] \<and>
   (get_queue_attributes sqs url (attribute_names f)
      = Inr \<lparr>Attributes = Some (attributes_of_counts (3, 7) (attribute_names f))\<rparr> \<longrightarrow>
    check_queue sqs url f = Inr (Some (3, (if f then 7 else 0), url)) \<and>
    snapshot_total (3, (if f then 7 else 0), url) = (if f then 10 else 3))"
proof (intro conjI impI)
  assume cq: "check_queue sqs url f = Inr (Some r)"
  from cq show "snapshot_url r = url" by (rule check_queue_Some_facts)
  from cq show "fetched_total sqs url f = Some (snapshot_total r)" by (rule check_queue_Some_facts)
  show "snapshot_total r = fst r + fst (snd r)"
    by (cases r) (simp add: snapshot_total_def)
  show "displayable_loop console_link [r] [] = [row_of console_link r]"
    by (simp add: displayable_loop_rows)
  show "row_total (row_of console_link r) =
        row_count (row_of console_link r) + row_in_flight (row_of console_link r)"
    by (cases r) (simp add: row_of_fields snapshot_total_def)
  show "row_count (row_of console_link r) = fst r" by (rule row_of_fields)
  show "row_in_flight (row_of console_link r) = fst (snd r)" by (rule row_of_fields)
  show "fst (snd r) = 0" if "\<not> f" using cq that by (rule check_queue_Some_facts)
next
  show "attribute_names False = [''ApproximateNumberOfMessages'']"
    by (simp add: attribute_names_def)
  show "attribute_names True =
     [''ApproximateNumberOfMessages'', ''ApproximateNumberOfMessagesNotVisible'']"
    by (simp add: attribute_names_def)
next
  assume "get_queue_attributes sqs url (attribute_names f)
      = Inr \<lparr>Attributes = Some (attributes_of_counts (3, 7) (attribute_names f))\<rparr>"
  then show "check_queue sqs url f = Inr (Some (3, (if f then 7 else 0), url))"
    by (rule check_queue_3_7)
  show "snapshot_total (3, (if f then 7 else 0), url) = (if f then 10 else 3)"
    by (simp add: snapshot_total_def)
qed

theorem check_queue_total_and_in_flight_witness:
  "get_queue_attributes (table_sqs demo_table) ''https://sqs/1/orders'' (attribute_names False)
     = Inr \<lparr>Attributes = Some (attributes_of_counts (3, 7) (attribute_names False))\<rparr> \<and>
   get_queue_attributes (table_sqs demo_table) ''https://sqs/1/orders'' (attribute_names True)
     = Inr \<lparr>Attributes = Some (attributes_of_counts (3, 7) (attribute_names True))\<rparr> \<and>
   check_queue (table_sqs demo_table) ''https://sqs/1/orders'' False
     = Inr (Some (3, 0, ''https://sqs/1/orders'')) \<and>
   check_queue (table_sqs demo_table) ''https://sqs/1/orders'' True
     = Inr (Some (3, 7, ''https://sqs/1/orders'')) \<and>
   snapshot_total (3, 0, ''https://sqs/1/orders'') = 3 \<and>
   snapshot_total (3, 7, ''https://sqs/1/orders'') = 10 \<and>
   fetched_total (table_sqs demo_table) ''https://sqs/1/orders'' False = Some 3 \<and>
   fetched_total (table_sqs demo_table) ''https://sqs/1/orders'' True = Some 10 \<and>
   row_total (row_of ''L'' (3, 7, ''https://sqs/1/orders'')) = 10 \<and>
   row_in_flight (row_of ''L'' (3, 0, ''https://sqs/1/orders'')) = 0"
proof -
  note a = check_queue_total_and_in_flight
    [of "table_sqs demo_table" "''https://sqs/1/orders''" False "(3, 0, ''https://sqs/1/orders'')" "''L''"]
  note b = check_queue_total_and_in_flight
    [of "table_sqs demo_table" "''https://sqs/1/orders''" True "(3, 7, ''https://sqs/1/orders'')" "''L''"]
  from a demo_orders_response [of False]
  have cqF: "check_queue (table_sqs demo_table) ''https://sqs/1/orders'' False
     = Inr (Some (3, 0, ''https://sqs/1/orders''))"
    and tF: "snapshot_total (3, 0, ''https://sqs/1/orders'') = 3"
    by simp_all
  from b demo_orders_response [of True]
  have cqT: "check_queue (table_sqs demo_table) ''https://sqs/1/orders'' True
     = Inr (Some (3, 7, ''https://sqs/1/orders''))"
    and tT: "snapshot_total (3, 7, ''https://sqs/1/orders'') = 10"
    by simp_all
  from a cqF tF have fF: "fetched_total (table_sqs demo_table) ''https://sqs/1/orders'' False = Some 3"
    and rF: "row_in_flight (row_of ''L'' (3, 0, ''https://sqs/1/orders'')) = 0"
    by simp_all
  from b cqT tT have fT: "fetched_total (table_sqs demo_table) ''https://sqs/1/orders'' True = Some 10"
    and rT: "row_total (row_of ''L'' (3, 7, ''https://sqs/1/orders'')) = 10"
    by simp_all
  from cqF cqT tF tT fF fT rF rT demo_orders_response [of False] demo_orders_response [of True]
  show ?thesis by blast
qed

section \<open>The order of the rendered rows\<close>

lemma stdout_print_rows:
  "stdout (print_rows f ws xs w) = stdout w @ map (\<lambda>x. Write (row_text f ws x @ [CHR 0x0A])) xs"
  by (induction xs arbitrary: w) (simp_all add: print_line_def print_end_def)

lemma sort_rows_key_le:
  "(- row_total x, row_name x) \<le> (- row_total y, row_name y) \<longleftrightarrow> row_before x y"
  by (auto simp: row_before_def less_eq_prod_def)

lemma sorted_wrt_sort_rows: "sorted_wrt row_before (sort_rows rows)"
proof -
  have "sorted (map (\<lambda>x. (- row_total x, row_name x)) (sort_rows rows))"
    unfolding sort_rows_def by (rule sorted_sort_key)
  then have "sorted_wrt (\<lambda>x y. (- row_total x, row_name x) \<le> (- row_total y, row_name y))
      (sort_rows rows)"
    by (simp only: sorted_wrt_map)
  then show ?thesis by (simp only: sort_rows_key_le)
qed

lemma mset_sort_rows: "mset (sort_rows rows) = mset rows"
  by (simp add: sort_rows_def)

lemma length_sort_rows: "length (sort_rows rows) = length rows"
  by (simp add: sort_rows_def)

lemma stdout_display_results:
  assumes "results \<noteq> []"
  obtains r rs where
    "sort_rows (map (row_of (console_link_of region)) results) = r # rs"
    "stdout (display_results region results f w) =
       stdout (clear_line w) @
       map (\<lambda>x. Write (row_text f (column_widths f r rs) x @ [CHR 0x0A])) (r # rs)"
proof -
  let ?rows = "sort_rows (map (row_of (console_link_of region)) results)"
  from assms have "length ?rows \<noteq> 0" by (simp add: length_sort_rows)
  then obtain r rs where rows: "?rows = r # rs" by (cases ?rows) simp_all
  have "stdout (display_results region results f w) =
       stdout (clear_line w) @
       map (\<lambda>x. Write (row_text f (column_widths f r rs) x @ [CHR 0x0A])) (r # rs)"
    using assms rows
    by (simp add: display_results_def displayable_loop_rows stdout_print_rows
        del: print_rows.simps)
  with rows that show ?thesis by blast
qed

lemma sort_example:
  "map (\<lambda>x. (row_name x, row_total x))
     (sort_rows (map (row_of console_link)
        [(5, 0, ''https://sqs/1/b''), (5, 0, ''https://sqs/1/a''), (2, 0, ''https://sqs/1/c'')]))
   = [(''a'', 5), (''b'', 5), (''c'', 2)]"
  by (simp add: sort_rows_def row_of_def row_name_def row_total_def less_eq_prod_def)

text \<open>
  Claim C2. \<open>display_results\<close> prints, after clearing the line, one entry per row in the
  order of \<open>sort_rows\<close>; that order puts larger totals first and, among equal totals, the
  smaller display name first, and it permutes the rows. Snapshots with totals 5, 5, 2 and
  names b, a, c are rendered as a (5), b (5), c (2).
\<close>

theorem display_results_sorted:
  "(results \<noteq> [] \<longrightarrow>
      (\<exists>ws. stdout (display_results region results f w) =
         stdout (clear_line w) @
         map (\<lambda>x. Write (row_text f ws x @ [CHR 0x0A]))
           (sort_rows (map (row_of (console_link_of region)) results)))) \<and>
   sorted_wrt row_before (sort_rows rows) \<and>
   mset (sort_rows rows) = mset rows \<and>
   map (\<lambda>x. (row_name x, row_total x))
     (sort_rows (map (row_of console_link)
        [(5, 0, ''https://sqs/1/b''), (5, 0, ''https://sqs/1/a''), (2, 0, ''https://sqs/1/c'')]))
   = [(''a'', 5), (''b'', 5), (''c'', 2)]"
proof (intro conjI impI)
  assume "results \<noteq> []"
  then obtain r rs where
    "sort_rows (map (row_of (console_link_of region)) results) = r # rs"
    "stdout (display_results region results f w) =
       stdout (clear_line w) @
       map (\<lambda>x. Write (row_text f (column_widths f r rs) x @ [CHR 0x0A])) (r # rs)"
    by (rule stdout_display_results)
  then show "\<exists>ws. stdout (display_results region results f w) =
         stdout (clear_line w) @
         map (\<lambda>x. Write (row_text f ws x @ [CHR 0x0A]))
           (sort_rows (map (row_of (console_link_of region)) results))"
    by (intro exI [of _ "column_widths f r rs"]) simp
next
  show "sorted_wrt row_before (sort_rows rows)" by (rule sorted_wrt_sort_rows)
  show "mset (sort_rows rows) = mset rows" by (rule mset_sort_rows)
  show "map (\<lambda>x. (row_name x, row_total x))
     (sort_rows (map (row_of console_link)
        [(5, 0, ''https://sqs/1/b''), (5, 0, ''https://sqs/1/a''), (2, 0, ''https://sqs/1/c'')]))
   = [(''a'', 5), (''b'', 5), (''c'', 2)]"
    by (rule sort_example)
qed

theorem display_results_sorted_witness:
  "[(5, 0, ''https://sqs/1/b''), (5, 0, ''https://sqs/1/a''), (2::int, 0::int, ''https://sqs/1/c'')] \<noteq> [] \<and>
   map (\<lambda>x. (row_name x, row_total x))
     (sort_rows (map (row_of (console_link_of None))
        [(5, 0, ''https://sqs/1/b''), (5, 0, ''https://sqs/1/a''), (2, 0, ''https://sqs/1/c'')]))
   = [(''a'', 5), (''b'', 5), (''c'', 2)] \<and>
   length (stdout (display_results None
      [(5, 0, ''https://sqs/1/b''), (5, 0, ''https://sqs/1/a''), (2, 0, ''https://sqs/1/c'')]
      False world0)) = 4"
proof -
  let ?results = "[(5, 0, ''https://sqs/1/b''), (5, 0, ''https://sqs/1/a''), (2::int, 0::int, ''https://sqs/1/c'')]"
  note inst = display_results_sorted [of ?results None False world0 "[]" "console_link_of None"]
  have ne: "?results \<noteq> []" by simp
  from inst ne obtain ws where
    "stdout (display_results None ?results False world0) =
         stdout (clear_line world0) @
         map (\<lambda>x. Write (row_text False ws x @ [CHR 0x0A]))
           (sort_rows (map (row_of (console_link_of None)) ?results))"
    by blast
  then have "length (stdout (display_results None ?results False world0)) = 4"
    by (simp add: length_sort_rows clear_line_def print_end_def world0_def)
  with inst ne show ?thesis by blast
qed

section \<open>Column widths\<close>

lemma length_str_nat_mono: "m \<le> n \<Longrightarrow> length (str_nat m) \<le> length (str_nat n)"
proof (induction n arbitrary: m rule: str_nat.induct)
  case (1 n)
  show ?case
  proof (cases "n < 10")
    case True
    with "1.prems" have "m < 10" by simp
    with True show ?thesis by (simp add: str_nat.simps [of m] str_nat.simps [of n])
  next
    case False
    show ?thesis
    proof (cases "m < 10")
      case True
      with False show ?thesis by (simp add: str_nat.simps [of m] str_nat.simps [of n])
    next
      case m: False
      from "1.prems" have "m div 10 \<le> n div 10" by (rule div_le_mono)
      with False have "length (str_nat (m div 10)) \<le> length (str_nat (n div 10))"
        by (intro "1.IH") simp_all
      with False m show ?thesis by (simp add: str_nat.simps [of m] str_nat.simps [of n])
    qed
  qed
qed

lemma max_of_Max: "max_of f x xs = Max (f ` set (x # xs))"
proof -
  have "max_of f x xs = Max (set (f x # map f xs))"
    unfolding max_of_def by (rule Max.set_eq_fold [symmetric])
  then show ?thesis by simp
qed

lemma length_str_int_Max:
  assumes "finite X" and "X \<noteq> {}" and nonneg: "\<forall>x\<in>X. 0 \<le> g x"
  shows "length (str_int (Max (g ` X))) = Max ((\<lambda>x. length (str_int (g x))) ` X)"
proof -
  let ?h = "\<lambda>n::int. length (str_nat (nat n))"
  have "mono ?h"
    by (rule monoI) (simp add: length_str_nat_mono nat_mono)
  moreover from assms have "finite (g ` X)" "g ` X \<noteq> {}" by simp_all
  ultimately have "?h (Max (g ` X)) = Max (?h ` (g ` X))" by (rule mono_Max_commute)
  also have "?h ` (g ` X) = (\<lambda>x. length (str_int (g x))) ` X"
    unfolding image_image using nonneg by (intro image_cong) (auto simp: str_int_def)
  finally have *: "?h (Max (g ` X)) = Max ((\<lambda>x. length (str_int (g x))) ` X)" .
  from assms obtain x where "x \<in> X" by blast
  with assms have "g x \<le> Max (g ` X)" "0 \<le> g x" by simp_all
  then have "0 \<le> Max (g ` X)" by linarith
  then have "str_int (Max (g ` X)) = str_nat (nat (Max (g ` X)))" by (simp add: str_int_def)
  with * show ?thesis by simp
qed

lemma ljust_fits:
  "length s \<le> width \<Longrightarrow> length (ljust width s) = width"
  by (simp add: ljust_def)

lemma rjust_fits:
  "length s \<le> width \<Longrightarrow> length (rjust width s) = width"
  by (simp add: rjust_def)

lemma set_sort_rows: "set (sort_rows rows) = set rows"
  by (simp add: sort_rows_def)

lemma nonneg_rows:
  assumes "\<forall>r\<in>set results. nonneg_snapshot r"
    and "x \<in> set (sort_rows (map (row_of console_link) results))"
  shows "0 \<le> row_count x" and "0 \<le> row_in_flight x" and "0 \<le> row_total x"
proof -
  from assms(2) obtain r where r: "r \<in> set results" and x: "x = row_of console_link r"
    by (auto simp: set_sort_rows)
  from assms(1) r have "nonneg_snapshot r" by blast
  then have nn: "0 \<le> fst r" "0 \<le> fst (snd r)" "0 \<le> snapshot_total r"
    by (cases r; simp add: nonneg_snapshot_def snapshot_total_def)+
  from nn show "0 \<le> row_count x" by (simp add: x row_of_fields)
  from nn show "0 \<le> row_in_flight x" by (simp add: x row_of_fields)
  from nn show "0 \<le> row_total x" by (simp add: x row_of_fields)
qed

lemma width_example_rows:
  "sort_rows (map (row_of (console_link_of None)) [(3, 12, ''q/abc''), (5, 0, ''q/b'')])
     = [(''abc'', 3, 12, 15, console_link_of None @ ''#/queues/q%2Fabc''),
        (''b'', 5, 0, 5, console_link_of None @ ''#/queues/q%2Fb'')]"
  by code_simp

text \<open>
  Claim C8. For a non-empty poll result (with the non-negative counts of the data model)
  the presenter prints its rows with these widths: the width of each column is the largest
  string length of that field over all rows, for the name, the visible count and, when they
  are shown, the in-flight count and the total. The name is padded with spaces on the right
  and each number on the left, each to exactly the width of its column. The script takes
  the numeric widths as the length of the largest value, which is the same for such counts.
\<close>

theorem column_widths_aligned:
  assumes nonempty: "results \<noteq> []"
    and nonneg: "\<forall>r\<in>set results. nonneg_snapshot r"
    and rows: "sort_rows (map (row_of (console_link_of region)) results) = r # rs"
    and ws: "ws = column_widths f r rs"
  shows
    "stdout (display_results region results f w) =
       stdout (clear_line w) @ map (\<lambda>x. Write (row_text f ws x @ [CHR 0x0A])) (r # rs) \<and>
     max_base_name_length ws = Max ((\<lambda>x. length (row_name x)) ` set (r # rs)) \<and>
     max_message_count_length ws = Max ((\<lambda>x. length (str_int (row_count x))) ` set (r # rs)) \<and>
     (f \<longrightarrow> max_in_flight_length ws =
            Max ((\<lambda>x. length (str_int (row_in_flight x))) ` set (r # rs))) \<and>
     max_total_length ws = Max ((\<lambda>x. length (str_int (row_total x))) ` set (r # rs)) \<and>
     (\<forall>x\<in>set (r # rs).
        display_name ws x =
          row_name x @ replicate (max_base_name_length ws - length (row_name x)) CHR '' '' \<and>
        length (display_name ws x) = max_base_name_length ws \<and>
        display_count ws x =
          replicate (max_message_count_length ws - length (str_int (row_count x))) CHR '' '' @
          str_int (row_count x) \<and>
        length (display_count ws x) = max_message_count_length ws \<and>
        (f \<longrightarrow>
          display_in_flight ws x =
            replicate (max_in_flight_length ws - length (str_int (row_in_flight x))) CHR '' '' @
            str_int (row_in_flight x) \<and>
          length (display_in_flight ws x) = max_in_flight_length ws \<and>
          display_total ws x =
            replicate (max_total_length ws - length (str_int (row_total x))) CHR '' '' @
            str_int (row_total x) \<and>
          length (display_total ws x) = max_total_length ws))"
proof -
  let ?X = "set (r # rs)"
  have fin: "finite ?X" "?X \<noteq> {}" by simp_all
  have nn: "0 \<le> row_count x" "0 \<le> row_in_flight x" "0 \<le> row_total x" if "x \<in> ?X" for x
    using nonneg_rows [OF nonneg, of x "console_link_of region"] that rows by simp_all
  from nonempty obtain r' rs' where
    rows': "sort_rows (map (row_of (console_link_of region)) results) = r' # rs'"
    and out: "stdout (display_results region results f w) =
       stdout (clear_line w) @
       map (\<lambda>x. Write (row_text f (column_widths f r' rs') x @ [CHR 0x0A])) (r' # rs')"
    by (rule stdout_display_results)
  from rows rows' have "r' = r" "rs' = rs" by simp_all
  with out ws have A: "stdout (display_results region results f w) =
       stdout (clear_line w) @ map (\<lambda>x. Write (row_text f ws x @ [CHR 0x0A])) (r # rs)"
    by simp
  have B: "max_base_name_length ws = Max ((\<lambda>x. length (row_name x)) ` ?X)"
    by (simp only: ws column_widths_def max_of_Max widths.simps)
  have C: "max_message_count_length ws = Max ((\<lambda>x. length (str_int (row_count x))) ` ?X)"
  proof -
    have "max_message_count_length ws = length (str_int (Max (row_count ` ?X)))"
      by (simp only: ws column_widths_def max_of_Max widths.simps)
    also have "\<dots> = Max ((\<lambda>x. length (str_int (row_count x))) ` ?X)"
      using fin nn(1) by (intro length_str_int_Max) blast+
    finally show ?thesis .
  qed
  have D: "max_in_flight_length ws = Max ((\<lambda>x. length (str_int (row_in_flight x))) ` ?X)" if f
  proof -
    from that have "max_in_flight_length ws = length (str_int (Max (row_in_flight ` ?X)))"
      by (simp add: ws column_widths_def max_of_Max del: Max_insert set_simps)
    also have "\<dots> = Max ((\<lambda>x. length (str_int (row_in_flight x))) ` ?X)"
      using fin nn(2) by (intro length_str_int_Max) blast+
    finally show ?thesis .
  qed
  have E: "max_total_length ws = Max ((\<lambda>x. length (str_int (row_total x))) ` ?X)"
  proof -
    have "max_total_length ws = length (str_int (Max (row_total ` ?X)))"
      by (simp only: ws column_widths_def max_of_Max widths.simps)
    also have "\<dots> = Max ((\<lambda>x. length (str_int (row_total x))) ` ?X)"
      using fin nn(3) by (intro length_str_int_Max) blast+
    finally show ?thesis .
  qed
  have F: "display_name ws x =
          row_name x @ replicate (max_base_name_length ws - length (row_name x)) CHR '' '' \<and>
        length (display_name ws x) = max_base_name_length ws \<and>
        display_count ws x =
          replicate (max_message_count_length ws - length (str_int (row_count x))) CHR '' '' @
          str_int (row_count x) \<and>
        length (display_count ws x) = max_message_count_length ws \<and>
        (f \<longrightarrow>
          display_in_flight ws x =
            replicate (max_in_flight_length ws - length (str_int (row_in_flight x))) CHR '' '' @
            str_int (row_in_flight x) \<and>
          length (display_in_flight ws x) = max_in_flight_length ws \<and>
          display_total ws x =
            replicate (max_total_length ws - length (str_int (row_total x))) CHR '' '' @
            str_int (row_total x) \<and>
          length (display_total ws x) = max_total_length ws)" if x: "x \<in> ?X" for x
  proof -
    from x fin have "length (row_name x) \<le> Max ((\<lambda>x. length (row_name x)) ` ?X)"
      by (intro Max_ge) blast+
    with B have 1: "length (row_name x) \<le> max_base_name_length ws" by simp
    from x fin have "length (str_int (row_count x)) \<le> Max ((\<lambda>x. length (str_int (row_count x))) ` ?X)"
      by (intro Max_ge) blast+
    with C have 2: "length (str_int (row_count x)) \<le> max_message_count_length ws" by simp
    from x fin have "length (str_int (row_in_flight x)) \<le>
        Max ((\<lambda>x. length (str_int (row_in_flight x))) ` ?X)"
      by (intro Max_ge) blast+
    with D have 3: "length (str_int (row_in_flight x)) \<le> max_in_flight_length ws" if f
      using that by simp
    from x fin have "length (str_int (row_total x)) \<le> Max ((\<lambda>x. length (str_int (row_total x))) ` ?X)"
      by (intro Max_ge) blast+
    with E have 4: "length (str_int (row_total x)) \<le> max_total_length ws" by simp
    from 1 2 3 4 show ?thesis
      by (simp add: display_name_def display_count_def display_in_flight_def display_total_def
          ljust_def rjust_def)
  qed
  from A B C D E F show ?thesis by blast
qed

theorem column_widths_aligned_witness:
  "[(3, 12, ''q/abc''), (5::int, 0::int, ''q/b'')] \<noteq> [] \<and>
   list_all nonneg_snapshot [(3, 12, ''q/abc''), (5, 0, ''q/b'')] \<and>
   sort_rows (map (row_of (console_link_of None)) [(3, 12, ''q/abc''), (5, 0, ''q/b'')])
     = [(''abc'', 3, 12, 15, console_link_of None @ ''#/queues/q%2Fabc''),
        (''b'', 5, 0, 5, console_link_of None @ ''#/queues/q%2Fb'')] \<and>
   length (display_name
       (column_widths True (''abc'', 3, 12, 15, console_link_of None @ ''#/queues/q%2Fabc'')
          [(''b'', 5, 0, 5, console_link_of None @ ''#/queues/q%2Fb'')])
       (''b'', 5, 0, 5, console_link_of None @ ''#/queues/q%2Fb''))
     = max_base_name_length
       (column_widths True (''abc'', 3, 12, 15, console_link_of None @ ''#/queues/q%2Fabc'')
          [(''b'', 5, 0, 5, console_link_of None @ ''#/queues/q%2Fb'')]) \<and>
   display_name
       (column_widths True (''abc'', 3, 12, 15, console_link_of None @ ''#/queues/q%2Fabc'')
          [(''b'', 5, 0, 5, console_link_of None @ ''#/queues/q%2Fb'')])
       (''b'', 5, 0, 5, console_link_of None @ ''#/queues/q%2Fb'') = ''b  '' \<and>
   display_in_flight
       (column_widths True (''abc'', 3, 12, 15, console_link_of None @ ''#/queues/q%2Fabc'')
          [(''b'', 5, 0, 5, console_link_of None @ ''#/queues/q%2Fb'')])
       (''b'', 5, 0, 5, console_link_of None @ ''#/queues/q%2Fb'') = '' 0'' \<and>
   display_total
       (column_widths True (''abc'', 3, 12, 15, console_link_of None @ ''#/queues/q%2Fabc'')
          [(''b'', 5, 0, 5, console_link_of None @ ''#/queues/q%2Fb'')])
       (''b'', 5, 0, 5, console_link_of None @ ''#/queues/q%2Fb'') = '' 5''"
proof -
  let ?results = "[(3, 12, ''q/abc''), (5::int, 0::int, ''q/b'')]"
  let ?r = "(''abc'', 3::int, 12::int, 15::int, console_link_of None @ ''#/queues/q%2Fabc'')"
  let ?b = "(''b'', 5::int, 0::int, 5::int, console_link_of None @ ''#/queues/q%2Fb'')"
  let ?ws = "column_widths True ?r [?b]"
  have ne: "?results \<noteq> []" by simp
  have nn: "\<forall>r\<in>set ?results. nonneg_snapshot r" by (simp add: nonneg_snapshot_def)
  note inst = column_widths_aligned [OF ne nn width_example_rows refl, of True world0]
  then have "\<forall>x\<in>set [?r, ?b]. length (display_name ?ws x) = max_base_name_length ?ws"
    by blast
  then have len: "length (display_name ?ws ?b) = max_base_name_length ?ws" by simp
  have name: "display_name ?ws ?b = ''b  ''" by code_simp
  have infl: "display_in_flight ?ws ?b = '' 0''" by code_simp
  have total: "display_total ?ws ?b = '' 5''" by code_simp
  from nn have "list_all nonneg_snapshot ?results" by (simp only: list_all_iff)
  with ne width_example_rows len name infl total show ?thesis by blast
qed

section \<open>The pattern filter\<close>

lemma split_not_Nil: "split sep s \<noteq> []"
  by (induction s) (auto split: list.splits)

lemma split_no_sep: "sep \<notin> set s \<Longrightarrow> split sep s = [s]"
  by (induction s) auto

lemma split_sep: "sep \<in> set s \<Longrightarrow> tl (split sep s) \<noteq> []"
proof (induction s)
  case Nil
  then show ?case by simp
next
  case (Cons c cs)
  show ?case
  proof (cases "c = sep")
    case True
    then show ?thesis by (simp add: split_not_Nil)
  next
    case False
    with Cons.prems have "sep \<in> set cs" by simp
    then have "tl (split sep cs) \<noteq> []" by (rule Cons.IH)
    with False show ?thesis by (cases "split sep cs") simp_all
  qed
qed

lemma last_split:
  "last (split sep s) = rev (takeWhile (\<lambda>c. c \<noteq> sep) (rev s))"
proof (induction s)
  case Nil
  show ?case by simp
next
  case (Cons c cs)
  show ?case
  proof (cases "c = sep")
    case True
    then show ?thesis
      using Cons.IH by (simp add: split_not_Nil takeWhile_append)
  next
    case False
    show ?thesis
    proof (cases "sep \<in> set cs")
      case True
      then have "tl (split sep cs) \<noteq> []" by (rule split_sep)
      then obtain w w' ws where "split sep cs = w # w' # ws"
        by (cases "split sep cs"; cases "tl (split sep cs)") simp_all
      with False True Cons.IH show ?thesis
        by (auto simp: takeWhile_append)
    next
      case notin: False
      then have "split sep cs = [cs]" by (rule split_no_sep)
      with False notin show ?thesis by (simp add: takeWhile_append)
    qed
  qed
qed

lemma filter_loop_filter:
  "filter_loop re regex queue_urls acc =
     acc @ filter (\<lambda>url. re_search re regex (last (split CHR ''/'' url))) queue_urls"
  by (induction queue_urls arbitrary: acc) (simp_all add: Let_def)

lemma lit_compile_dlq: "re_compile lit_re ''^dlq'' True = Inr (LitRegex True True ''dlq'')"
  by code_simp

lemma lit_compile_plain: "re_compile lit_re ''dlq'' True = Inr (LitRegex True False ''dlq'')"
  by code_simp

lemma lit_search_dlq:
  "re_search lit_re (LitRegex True True ''dlq'') s \<longleftrightarrow> map lower_char (take 3 s) = ''dlq''"
proof -
  have "map lower_char ''dlq'' = ''dlq''" by code_simp
  then show ?thesis by (simp add: lit_re_def take_map numeral_3_eq_3)
qed

lemma lit_filter_plain:
  "filter (\<lambda>url. re_search lit_re (LitRegex True False ''dlq'') (last (split CHR ''/'' url)))
     [''https://sqs/1/dlq-orders'', ''https://sqs/dlq/orders'', ''https://sqs/1/users-DLQ'']
   = [''https://sqs/1/dlq-orders'', ''https://sqs/1/users-DLQ'']"
  by code_simp

text \<open>
  Claim C4. With an absent or empty pattern the filter returns its input. With a pattern
  that compiles (the script compiles it with \<open>re.IGNORECASE\<close>) the filter keeps, in order,
  exactly the URLs for which the library's \<open>search\<close> finds the pattern in the short name;
  the short name is what follows the last \<open>/\<close> of the URL. With a library in which
  \<open>^dlq\<close>, compiled so, finds the names that start with \<open>dlq\<close> in any case, the names
  dlq-orders, orders-dlq, DLQ-users are filtered to dlq-orders, DLQ-users.
\<close>

theorem filter_queues_by_pattern_search:
  "(pat = None \<or> pat = Some [] \<longrightarrow>
      filter_queues_by_pattern re queue_urls pat w = (Inr queue_urls, w)) \<and>
   (p \<noteq> [] \<and> re_compile re p True = Inr regex \<longrightarrow>
      filter_queues_by_pattern re queue_urls (Some p) w =
        (Inr (filter (\<lambda>url. re_search re regex (last (split CHR ''/'' url))) queue_urls), w)) \<and>
   last (split CHR ''/'' url) = rev (takeWhile (\<lambda>c. c \<noteq> CHR ''/'') (rev url)) \<and>
   (re_compile re ''^dlq'' True = Inr regex \<and>
    (\<forall>s. re_search re regex s \<longleftrightarrow> map lower_char (take 3 s) = ''dlq'') \<longrightarrow>
      filter_queues_by_pattern re [''dlq-orders'', ''orders-dlq'', ''DLQ-users''] (Some ''^dlq'') w =
        (Inr [''dlq-orders'', ''DLQ-users''], w))"
proof (intro conjI impI)
  assume "pat = None \<or> pat = Some []"
  then show "filter_queues_by_pattern re queue_urls pat w = (Inr queue_urls, w)"
    by (auto simp: filter_queues_by_pattern_def)
next
  assume "p \<noteq> [] \<and> re_compile re p True = Inr regex"
  then show "filter_queues_by_pattern re queue_urls (Some p) w =
        (Inr (filter (\<lambda>url. re_search re regex (last (split CHR ''/'' url))) queue_urls), w)"
    by (simp add: filter_queues_by_pattern_def filter_loop_filter)
next
  show "last (split CHR ''/'' url) = rev (takeWhile (\<lambda>c. c \<noteq> CHR ''/'') (rev url))"
    by (rule last_split)
next
  assume h: "re_compile re ''^dlq'' True = Inr regex \<and>
    (\<forall>s. re_search re regex s \<longleftrightarrow> map lower_char (take 3 s) = ''dlq'')"
  have low: "map lower_char ''dlq'' = ''dlq''" "map lower_char ''ord'' = ''ord''"
    "map lower_char ''DLQ'' = ''dlq''"
    by code_simp+
  from h have "filter_queues_by_pattern re [''dlq-orders'', ''orders-dlq'', ''DLQ-users''] (Some ''^dlq'') w =
      (Inr (filter (\<lambda>url. map lower_char (take 3 (last (split CHR ''/'' url))) = ''dlq'')
         [''dlq-orders'', ''orders-dlq'', ''DLQ-users'']), w)"
    by (simp add: filter_queues_by_pattern_def filter_loop_filter)
  also have "filter (\<lambda>url. map lower_char (take 3 (last (split CHR ''/'' url))) = ''dlq'')
         [''dlq-orders'', ''orders-dlq'', ''DLQ-users''] = [''dlq-orders'', ''DLQ-users'']"
    using low by (simp add: last_split)
  finally show "filter_queues_by_pattern re [''dlq-orders'', ''orders-dlq'', ''DLQ-users''] (Some ''^dlq'') w =
        (Inr [''dlq-orders'', ''DLQ-users''], w)" .
qed

theorem filter_queues_by_pattern_search_witness:
  "re_compile lit_re ''^dlq'' True = Inr (LitRegex True True ''dlq'') \<and>
   (\<forall>s. re_search lit_re (LitRegex True True ''dlq'') s \<longleftrightarrow> map lower_char (take 3 s) = ''dlq'') \<and>
   filter_queues_by_pattern lit_re [''dlq-orders'', ''orders-dlq'', ''DLQ-users''] (Some ''^dlq'') world0 =
     (Inr [''dlq-orders'', ''DLQ-users''], world0) \<and>
   ''dlq'' \<noteq> [] \<and> re_compile lit_re ''dlq'' True = Inr (LitRegex True False ''dlq'') \<and>
   filter_queues_by_pattern lit_re
     [''https://sqs/1/dlq-orders'', ''https://sqs/dlq/orders'', ''https://sqs/1/users-DLQ'']
     (Some ''dlq'') world0 =
     (Inr [''https://sqs/1/dlq-orders'', ''https://sqs/1/users-DLQ''], world0) \<and>
   filter_queues_by_pattern lit_re [''https://sqs/1/dlq-orders''] None world0 =
     (Inr [''https://sqs/1/dlq-orders''], world0) \<and>
   filter_queues_by_pattern lit_re [''https://sqs/1/dlq-orders''] (Some []) world0 =
     (Inr [''https://sqs/1/dlq-orders''], world0)"
proof -
  note a = filter_queues_by_pattern_search
    [of None lit_re "[''https://sqs/1/dlq-orders'']" world0 "''dlq''" "LitRegex True True ''dlq''"]
  note b = filter_queues_by_pattern_search
    [of "Some []" lit_re "[''https://sqs/1/dlq-orders'']" world0 "''dlq''" "LitRegex True True ''dlq''"]
  note c = filter_queues_by_pattern_search
    [of None lit_re
      "[''https://sqs/1/dlq-orders'', ''https://sqs/dlq/orders'', ''https://sqs/1/users-DLQ'']"
      world0 "''dlq''" "LitRegex True False ''dlq''"]
  from a lit_compile_dlq lit_search_dlq
  have 1: "filter_queues_by_pattern lit_re [''dlq-orders'', ''orders-dlq'', ''DLQ-users''] (Some ''^dlq'') world0 =
     (Inr [''dlq-orders'', ''DLQ-users''], world0)"
    by blast
  from a have 2: "filter_queues_by_pattern lit_re [''https://sqs/1/dlq-orders''] None world0 =
     (Inr [''https://sqs/1/dlq-orders''], world0)"
    by blast
  from b have 3: "filter_queues_by_pattern lit_re [''https://sqs/1/dlq-orders''] (Some []) world0 =
     (Inr [''https://sqs/1/dlq-orders''], world0)"
    by blast
  have ne: "''dlq'' \<noteq> []" by simp
  from c ne lit_compile_plain
  have "filter_queues_by_pattern lit_re
     [''https://sqs/1/dlq-orders'', ''https://sqs/dlq/orders'', ''https://sqs/1/users-DLQ'']
     (Some ''dlq'') world0 =
     (Inr (filter (\<lambda>url. re_search lit_re (LitRegex True False ''dlq'') (last (split CHR ''/'' url)))
       [''https://sqs/1/dlq-orders'', ''https://sqs/dlq/orders'', ''https://sqs/1/users-DLQ'']), world0)"
    by blast
  then have 4: "filter_queues_by_pattern lit_re
     [''https://sqs/1/dlq-orders'', ''https://sqs/dlq/orders'', ''https://sqs/1/users-DLQ'']
     (Some ''dlq'') world0 =
     (Inr [''https://sqs/1/dlq-orders'', ''https://sqs/1/users-DLQ''], world0)"
    by (simp only: lit_filter_plain)
  from 1 2 3 4 ne lit_compile_dlq lit_compile_plain lit_search_dlq show ?thesis by blast
qed

section \<open>Keys during the countdown\<close>

lemma lower_char_all:
  "\<forall>c. (lower_char c = CHR ''r'') = (c = CHR ''r'' \<or> c = CHR ''R'')"
  by code_simp

lemma lower_char_all_q:
  "\<forall>c. (lower_char c = CHR ''q'') = (c = CHR ''q'' \<or> c = CHR ''Q'')"
  by code_simp

lemma read_key_r: "read_key (Key c) = ''r'' \<longleftrightarrow> c = CHR ''r'' \<or> c = CHR ''R''"
  using lower_char_all by (simp add: read_key_def)

lemma read_key_q: "read_key (Key c) = ''q'' \<longleftrightarrow> c = CHR ''q'' \<or> c = CHR ''Q''"
  using lower_char_all_q by (simp add: read_key_def)

lemma countdown_loop_key:
  assumes "stdin w = Key c # rest"
  shows "countdown_loop duration_len (Suc n) w =
       (let w2 = clear_line ((print_end (countdown_text duration_len (Suc n)) w)\<lparr>stdin := rest\<rparr>)
        in if c = CHR ''r'' \<or> c = CHR ''R'' then (Inr True, w2)
           else if c = CHR ''q'' \<or> c = CHR ''Q'' then quit w2
           else countdown_loop duration_len n w2)"
proof -
  from assms have "stdin (print_end (countdown_text duration_len (Suc n)) w) = Key c # rest"
    by (simp add: print_end_def)
  then show ?thesis
    by (simp add: Let_def read_key_r read_key_q)
qed

text \<open>
  Claim C9. The key read during a tick of the countdown is lowercased before it is compared:
  \<open>r\<close> and \<open>R\<close> both end the countdown with \<open>True\<close>, \<open>q\<close> and \<open>Q\<close> both quit (exit status 0),
  and after any other key the countdown goes on with the next tick. In each case the
  terminal mode is put back.
\<close>

theorem countdown_keys_ignore_case:
  "(stdin w = Key c # rest \<longrightarrow>
      countdown_loop duration_len (Suc n) w =
        (let w2 = clear_line ((print_end (countdown_text duration_len (Suc n)) w)\<lparr>stdin := rest\<rparr>)
         in if c = CHR ''r'' \<or> c = CHR ''R'' then (Inr True, w2)
            else if c = CHR ''q'' \<or> c = CHR ''Q'' then quit w2
            else countdown_loop duration_len n w2)) \<and>
   (0 < duration \<and> stdin w = Key c # rest \<and> (c = CHR ''r'' \<or> c = CHR ''R'') \<longrightarrow>
      fst (countdown duration w) = Inr True \<and>
      stdin (snd (countdown duration w)) = rest \<and>
      cbreak (snd (countdown duration w)) = cbreak w) \<and>
   (0 < duration \<and> stdin w = Key c # rest \<and> (c = CHR ''q'' \<or> c = CHR ''Q'') \<longrightarrow>
      fst (countdown duration w) = Inl (SystemExit 0) \<and>
      cbreak (snd (countdown duration w)) = cbreak w) \<and>
   read_key (Key c) = [lower_char c] \<and>
   (lower_char c = CHR ''r'' \<longleftrightarrow> c = CHR ''r'' \<or> c = CHR ''R'') \<and>
   (lower_char c = CHR ''q'' \<longleftrightarrow> c = CHR ''q'' \<or> c = CHR ''Q'')"
proof (intro conjI impI)
  assume "stdin w = Key c # rest"
  then show "countdown_loop duration_len (Suc n) w =
        (let w2 = clear_line ((print_end (countdown_text duration_len (Suc n)) w)\<lparr>stdin := rest\<rparr>)
         in if c = CHR ''r'' \<or> c = CHR ''R'' then (Inr True, w2)
            else if c = CHR ''q'' \<or> c = CHR ''Q'' then quit w2
            else countdown_loop duration_len n w2)"
    by (rule countdown_loop_key)
next
  assume h: "0 < duration \<and> stdin w = Key c # rest \<and> (c = CHR ''r'' \<or> c = CHR ''R'')"
  then obtain n where n: "nat duration = Suc n" by (cases "nat duration") simp_all
  from h have "stdin (w\<lparr>cbreak := True\<rparr>) = Key c # rest" by simp
  from countdown_loop_key [OF this, of "length (str_int duration)" n] h n
  have "countdown duration w =
      (Inr True, (clear_line ((print_end (countdown_text (length (str_int duration)) (Suc n))
          (w\<lparr>cbreak := True\<rparr>))\<lparr>stdin := rest\<rparr>))\<lparr>cbreak := cbreak w\<rparr>)"
    by (simp add: countdown_def Let_def del: countdown_loop.simps)
  then show "fst (countdown duration w) = Inr True"
    and "stdin (snd (countdown duration w)) = rest"
    and "cbreak (snd (countdown duration w)) = cbreak w"
    by (simp_all add: clear_line_def print_end_def)
next
  assume h: "0 < duration \<and> stdin w = Key c # rest \<and> (c = CHR ''q'' \<or> c = CHR ''Q'')"
  then obtain n where n: "nat duration = Suc n" by (cases "nat duration") simp_all
  from h have "c \<noteq> CHR ''r''" "c \<noteq> CHR ''R''" by auto
  moreover from h have "stdin (w\<lparr>cbreak := True\<rparr>) = Key c # rest" by simp
  from countdown_loop_key [OF this, of "length (str_int duration)" n]
  have "countdown_loop (length (str_int duration)) (Suc n) (w\<lparr>cbreak := True\<rparr>) =
       (let w2 = clear_line ((print_end (countdown_text (length (str_int duration)) (Suc n))
            (w\<lparr>cbreak := True\<rparr>))\<lparr>stdin := rest\<rparr>)
        in if c = CHR ''r'' \<or> c = CHR ''R'' then (Inr True, w2)
           else if c = CHR ''q'' \<or> c = CHR ''Q'' then quit w2
           else countdown_loop (length (str_int duration)) n w2)" .
  ultimately have "countdown duration w =
      (Inl (SystemExit 0), (snd (quit (clear_line ((print_end (countdown_text (length (str_int duration)) (Suc n))
          (w\<lparr>cbreak := True\<rparr>))\<lparr>stdin := rest\<rparr>)) :: (py_exception + bool) \<times> world))\<lparr>cbreak := cbreak w\<rparr>)"
    using h n by (simp add: countdown_def Let_def quit_def del: countdown_loop.simps)
  then show "fst (countdown duration w) = Inl (SystemExit 0)"
    and "cbreak (snd (countdown duration w)) = cbreak w"
    by simp_all
next
  show "read_key (Key c) = [lower_char c]" by (simp add: read_key_def)
  show "lower_char c = CHR ''r'' \<longleftrightarrow> c = CHR ''r'' \<or> c = CHR ''R''"
    using lower_char_all by blast
  show "lower_char c = CHR ''q'' \<longleftrightarrow> c = CHR ''q'' \<or> c = CHR ''Q''"
    using lower_char_all_q by blast
qed

theorem countdown_keys_ignore_case_witness:
  "stdin (world0\<lparr>stdin := [Key CHR ''R'']\<rparr>) = Key CHR ''R'' # [] \<and>
   stdin (world0\<lparr>stdin := [Key CHR ''Q'']\<rparr>) = Key CHR ''Q'' # [] \<and>
   stdin (world0\<lparr>stdin := [Key CHR ''x'']\<rparr>) = Key CHR ''x'' # [] \<and>
   (0::int) < 5 \<and>
   fst (countdown 5 (world0\<lparr>stdin := [Key CHR ''R'']\<rparr>)) = Inr True \<and>
   fst (countdown 5 (world0\<lparr>stdin := [Key CHR ''Q'']\<rparr>)) = Inl (SystemExit 0) \<and>
   fst (countdown_loop 1 (Suc 0) (world0\<lparr>stdin := [Key CHR ''x'']\<rparr>)) = Inr False"
proof -
  have r: "stdin (world0\<lparr>stdin := [Key CHR ''R'']\<rparr>) = Key CHR ''R'' # []"
    and q: "stdin (world0\<lparr>stdin := [Key CHR ''Q'']\<rparr>) = Key CHR ''Q'' # []"
    and x: "stdin (world0\<lparr>stdin := [Key CHR ''x'']\<rparr>) = Key CHR ''x'' # []"
    by simp_all
  from countdown_keys_ignore_case
    [of "world0\<lparr>stdin := [Key CHR ''R'']\<rparr>" "CHR ''R''" "[]" 1 0 5] r
  have 1: "fst (countdown 5 (world0\<lparr>stdin := [Key CHR ''R'']\<rparr>)) = Inr True" by simp
  from countdown_keys_ignore_case
    [of "world0\<lparr>stdin := [Key CHR ''Q'']\<rparr>" "CHR ''Q''" "[]" 1 0 5] q
  have 2: "fst (countdown 5 (world0\<lparr>stdin := [Key CHR ''Q'']\<rparr>)) = Inl (SystemExit 0)" by simp
  from countdown_keys_ignore_case
    [of "world0\<lparr>stdin := [Key CHR ''x'']\<rparr>" "CHR ''x''" "[]" 1 0 5] x
  have "countdown_loop 1 (Suc 0) (world0\<lparr>stdin := [Key CHR ''x'']\<rparr>) =
      countdown_loop 1 0 (clear_line
        ((print_end (countdown_text 1 (Suc 0)) (world0\<lparr>stdin := [Key CHR ''x'']\<rparr>))\<lparr>stdin := []\<rparr>))"
    by (simp add: Let_def del: countdown_loop.simps)
  then have 3: "fst (countdown_loop 1 (Suc 0) (world0\<lparr>stdin := [Key CHR ''x'']\<rparr>)) = Inr False"
    by simp
  from r q x 1 2 3 show ?thesis by simp
qed

section \<open>A countdown of no seconds\<close>

lemma stdin_collect_results:
  "stdin (snd (collect_results t p futs acc w)) = stdin w"
proof (induction futs arbitrary: p acc w)
  case Nil
  show ?case by simp
next
  case (Cons fut futs)
  show ?case
  proof (cases fut)
    case (Inl e)
    then show ?thesis by (simp add: Let_def print_end_def)
  next
    case (Inr result)
    then show ?thesis by (cases result) (simp_all add: Let_def Cons.IH print_end_def)
  qed
qed

lemma stdin_get_queue_infos:
  "stdin (snd (get_queue_infos sqs sched queue_urls workers f w)) = stdin w"
  by (simp add: get_queue_infos_def Let_def stdin_collect_results)

lemma stdin_print_rows: "stdin (print_rows f ws xs w) = stdin w"
  by (induction xs arbitrary: w) (simp_all add: print_line_def print_end_def)

lemma stdin_display_results: "stdin (display_results region results f w) = stdin w"
  by (simp add: display_results_def Let_def stdin_print_rows clear_line_def print_line_def
      print_end_def split: list.splits)

lemma countdown_zero: "duration \<le> 0 \<Longrightarrow> countdown duration w = (Inr False, w)"
  by (simp add: countdown_def)

lemma watch_loop_zero_step:
  assumes "duration \<le> 0"
  shows "watch_loop env a duration queue_urls cycle (Suc fuel) w =
       (case get_queue_infos (env_sqs env cycle) (env_sched env cycle) queue_urls
               (arg_workers a) (arg_include_in_flight a) w of
          (Inl e, w1) \<Rightarrow> (Some (Inl e), w1)
        | (Inr results, w1) \<Rightarrow>
            watch_loop env a duration queue_urls (Suc cycle) fuel
              (display_results (env_region env) results (arg_include_in_flight a)
                 (w1\<lparr>stdout := stdout w1 @ [ClearScreen]\<rparr>)))"
  using assms by (simp add: countdown_zero Let_def split: prod.splits sum.splits)

lemma watch_loop_zero_stdin:
  assumes "duration \<le> 0"
  shows "stdin (snd (watch_loop env a duration queue_urls cycle fuel w)) = stdin w"
proof (induction fuel arbitrary: cycle w)
  case 0
  show ?case by simp
next
  case (Suc fuel)
  obtain r w1 where g: "get_queue_infos (env_sqs env cycle) (env_sched env cycle) queue_urls
               (arg_workers a) (arg_include_in_flight a) w = (r, w1)"
    by (cases "get_queue_infos (env_sqs env cycle) (env_sched env cycle) queue_urls
               (arg_workers a) (arg_include_in_flight a) w")
  from stdin_get_queue_infos [of "env_sqs env cycle" "env_sched env cycle" queue_urls
      "arg_workers a" "arg_include_in_flight a" w] g
  have w1: "stdin w1 = stdin w" by simp
  show ?case
  proof (cases r)
    case (Inl e)
    with g w1 assms show ?thesis
      by (simp only: watch_loop_zero_step) simp
  next
    case (Inr results)
    with g assms have "watch_loop env a duration queue_urls cycle (Suc fuel) w =
        watch_loop env a duration queue_urls (Suc cycle) fuel
              (display_results (env_region env) results (arg_include_in_flight a)
                 (w1\<lparr>stdout := stdout w1 @ [ClearScreen]\<rparr>))"
      by (simp only: watch_loop_zero_step) simp
    then show ?thesis
      by (simp only: Suc.IH stdin_display_results) (simp add: w1)
  qed
qed

lemma watch_loop_zero_runs_on:
  assumes "duration \<le> 0"
    and ok: "\<forall>c w. \<exists>results w1.
        get_queue_infos (env_sqs env c) (env_sched env c) queue_urls
          (arg_workers a) (arg_include_in_flight a) w = (Inr results, w1)"
  shows "fst (watch_loop env a duration queue_urls cycle fuel w) = None"
proof (induction fuel arbitrary: cycle w)
  case 0
  show ?case by simp
next
  case (Suc fuel)
  from ok obtain results w1 where
    "get_queue_infos (env_sqs env cycle) (env_sched env cycle) queue_urls
          (arg_workers a) (arg_include_in_flight a) w = (Inr results, w1)"
    by blast
  with assms(1) have "watch_loop env a duration queue_urls cycle (Suc fuel) w =
        watch_loop env a duration queue_urls (Suc cycle) fuel
              (display_results (env_region env) results (arg_include_in_flight a)
                 (w1\<lparr>stdout := stdout w1 @ [ClearScreen]\<rparr>))"
    by (simp only: watch_loop_zero_step) simp
  then show ?case by (simp only: Suc.IH)
qed

lemma demo_polls_ok:
  "\<exists>results w1.
     get_queue_infos (env_sqs demo_env c) (env_sched demo_env c) (map fst demo_table)
       (arg_workers (demo_args\<lparr>arg_watch := Some 0\<rparr>))
       (arg_include_in_flight (demo_args\<lparr>arg_watch := Some 0\<rparr>)) w = (Inr results, w1)"
proof -
  have urls: "map fst demo_table
      = [''https://sqs/1/orders'', ''https://sqs/1/idle'', ''https://sqs/1/gone'']"
    by (simp add: demo_table_def)
  have "\<forall>url\<in>set (map fst demo_table). \<exists>r. check_queue (table_sqs demo_table) url False = Inr r"
    unfolding urls using demo_check_orders demo_check_idle check_queue_gone [OF demo_gone]
    by simp
  then have "\<exists>results w'.
      get_queue_infos (table_sqs demo_table) (env_sched demo_env c) (map fst demo_table) 4 False w
        = (Inr results, w')"
    by (intro get_queue_infos_no_raise) simp_all
  then show ?thesis by (simp add: demo_env_def demo_args_def)
qed

text \<open>
  Claim C10. For a duration of zero or less \<open>countdown\<close> makes no tick: it returns \<open>False\<close>
  and leaves everything as it was, so nothing is printed and no input is waited for or read.
  In watch mode with such an interval the display of one cycle is followed at once by the
  poll of the next; the loop never reads a key, and as long as the polls raise nothing it
  does not end.
\<close>

theorem countdown_nonpositive_no_wait:
  "duration \<le> 0 \<longrightarrow>
     countdown duration w = (Inr False, w) \<and>
     watch_loop env a duration queue_urls cycle (Suc fuel) w =
       (case get_queue_infos (env_sqs env cycle) (env_sched env cycle) queue_urls
               (arg_workers a) (arg_include_in_flight a) w of
          (Inl e, w1) \<Rightarrow> (Some (Inl e), w1)
        | (Inr results, w1) \<Rightarrow>
            watch_loop env a duration queue_urls (Suc cycle) fuel
              (display_results (env_region env) results (arg_include_in_flight a)
                 (w1\<lparr>stdout := stdout w1 @ [ClearScreen]\<rparr>))) \<and>
     stdin (snd (watch_loop env a duration queue_urls cycle fuel w)) = stdin w \<and>
     ((\<forall>c w. \<exists>results w1.
        get_queue_infos (env_sqs env c) (env_sched env c) queue_urls
          (arg_workers a) (arg_include_in_flight a) w = (Inr results, w1)) \<longrightarrow>
      fst (watch_loop env a duration queue_urls cycle fuel w) = None) \<and>
     (arg_watch a = Some duration \<longrightarrow>
      after_listing env a fuel queue_urls w = watch_loop env a duration queue_urls 0 fuel w)"
proof (intro impI conjI)
  assume d: "duration \<le> 0"
  from d show "countdown duration w = (Inr False, w)" by (rule countdown_zero)
  from d show "watch_loop env a duration queue_urls cycle (Suc fuel) w =
       (case get_queue_infos (env_sqs env cycle) (env_sched env cycle) queue_urls
               (arg_workers a) (arg_include_in_flight a) w of
          (Inl e, w1) \<Rightarrow> (Some (Inl e), w1)
        | (Inr results, w1) \<Rightarrow>
            watch_loop env a duration queue_urls (Suc cycle) fuel
              (display_results (env_region env) results (arg_include_in_flight a)
                 (w1\<lparr>stdout := stdout w1 @ [ClearScreen]\<rparr>)))"
    by (rule watch_loop_zero_step)
  from d show "stdin (snd (watch_loop env a duration queue_urls cycle fuel w)) = stdin w"
    by (rule watch_loop_zero_stdin)
  {
    assume "\<forall>c w. \<exists>results w1.
        get_queue_infos (env_sqs env c) (env_sched env c) queue_urls
          (arg_workers a) (arg_include_in_flight a) w = (Inr results, w1)"
    with d show "fst (watch_loop env a duration queue_urls cycle fuel w) = None"
      by (rule watch_loop_zero_runs_on)
  }
  {
    assume "arg_watch a = Some duration"
    then show "after_listing env a fuel queue_urls w = watch_loop env a duration queue_urls 0 fuel w"
      by (simp add: after_listing_def)
  }
qed

theorem countdown_nonpositive_no_wait_witness:
  "(0::int) \<le> 0 \<and>
   arg_watch (demo_args\<lparr>arg_watch := Some 0\<rparr>) = Some 0 \<and>
   (\<forall>c w. \<exists>results w1.
     get_queue_infos (env_sqs demo_env c) (env_sched demo_env c) (map fst demo_table)
       (arg_workers (demo_args\<lparr>arg_watch := Some 0\<rparr>))
       (arg_include_in_flight (demo_args\<lparr>arg_watch := Some 0\<rparr>)) w = (Inr results, w1)) \<and>
   countdown 0 (world0\<lparr>stdin := [Key CHR ''q'']\<rparr>) = (Inr False, world0\<lparr>stdin := [Key CHR ''q'']\<rparr>) \<and>
   fst (after_listing demo_env (demo_args\<lparr>arg_watch := Some 0\<rparr>) 3 (map fst demo_table)
          (world0\<lparr>stdin := [Key CHR ''q'']\<rparr>)) = None \<and>
   stdin (snd (after_listing demo_env (demo_args\<lparr>arg_watch := Some 0\<rparr>) 3 (map fst demo_table)
          (world0\<lparr>stdin := [Key CHR ''q'']\<rparr>))) = [Key CHR ''q'']"
proof -
  note inst = countdown_nonpositive_no_wait
    [of 0 "world0\<lparr>stdin := [Key CHR ''q'']\<rparr>" demo_env "demo_args\<lparr>arg_watch := Some 0\<rparr>"
        "map fst demo_table" 0 3]
  have le: "(0::int) \<le> 0" by simp
  have watch: "arg_watch (demo_args\<lparr>arg_watch := Some 0\<rparr>) = Some 0" by simp
  have ok: "\<forall>c w. \<exists>results w1.
     get_queue_infos (env_sqs demo_env c) (env_sched demo_env c) (map fst demo_table)
       (arg_workers (demo_args\<lparr>arg_watch := Some 0\<rparr>))
       (arg_include_in_flight (demo_args\<lparr>arg_watch := Some 0\<rparr>)) w = (Inr results, w1)"
    using demo_polls_ok by blast
  from inst le have 1: "countdown 0 (world0\<lparr>stdin := [Key CHR ''q'']\<rparr>)
      = (Inr False, world0\<lparr>stdin := [Key CHR ''q'']\<rparr>)"
    by blast
  from inst le watch have eq: "after_listing demo_env (demo_args\<lparr>arg_watch := Some 0\<rparr>) 3
        (map fst demo_table) (world0\<lparr>stdin := [Key CHR ''q'']\<rparr>)
      = watch_loop demo_env (demo_args\<lparr>arg_watch := Some 0\<rparr>) 0 (map fst demo_table) 0 3
        (world0\<lparr>stdin := [Key CHR ''q'']\<rparr>)"
    by blast
  from inst le ok have "fst (watch_loop demo_env (demo_args\<lparr>arg_watch := Some 0\<rparr>) 0
        (map fst demo_table) 0 3 (world0\<lparr>stdin := [Key CHR ''q'']\<rparr>)) = None"
    by blast
  with eq have 2: "fst (after_listing demo_env (demo_args\<lparr>arg_watch := Some 0\<rparr>) 3
        (map fst demo_table) (world0\<lparr>stdin := [Key CHR ''q'']\<rparr>)) = None"
    by simp
  from inst le have "stdin (snd (watch_loop demo_env (demo_args\<lparr>arg_watch := Some 0\<rparr>) 0
        (map fst demo_table) 0 3 (world0\<lparr>stdin := [Key CHR ''q'']\<rparr>)))
      = stdin (world0\<lparr>stdin := [Key CHR ''q'']\<rparr>)"
    by blast
  with eq have 3: "stdin (snd (after_listing demo_env (demo_args\<lparr>arg_watch := Some 0\<rparr>) 3
        (map fst demo_table) (world0\<lparr>stdin := [Key CHR ''q'']\<rparr>))) = [Key CHR ''q'']"
    by simp
  from le watch ok 1 2 3 show ?thesis by blast
qed

section \<open>The exit status without watch mode\<close>

lemma poll_once_result:
  assumes "get_queue_infos (env_sqs env 0) (env_sched env 0) queue_urls
             (arg_workers a) (arg_include_in_flight a) w = (Inr results, w1)"
  shows "poll_once env a queue_urls w =
     (if results \<noteq> [] then Inl (SystemExit 1) else Inr (),
      display_results (env_region env) results (arg_include_in_flight a) w1)"
  using assms by (simp add: poll_once_def Let_def)

lemma after_listing_non_watch:
  "arg_watch a = None \<Longrightarrow>
   after_listing env a fuel queue_urls w =
     (Some (fst (poll_once env a queue_urls w)), snd (poll_once env a queue_urls w))"
  by (simp add: after_listing_def split: prod.splits)

lemma main_non_watch_returns:
  assumes "arg_watch a = None"
  shows "\<exists>r w'. main env a fuel w = (Some r, w')"
proof -
  have *: "\<exists>r w'. after_listing env a fuel us v = (Some r, w')" for us v
    using assms by (simp add: after_listing_non_watch)
  show ?thesis
    unfolding main_def Let_def
    by (auto split: sum.splits option.splits prod.splits simp: *)
qed

lemma demo_idle_poll:
  "fst (get_queue_infos (table_sqs [(''https://sqs/1/idle'', Some (0, 0))]) [0]
     [''https://sqs/1/idle''] 4 False world0) = Inr []"
  by code_simp

text \<open>
  Claim C7. Without watch mode the part of \<open>main\<close> that follows the listing polls once;
  when the poll returns its result, the result is rendered and the process then ends with
  status 1 if the result is not empty and with status 0 if it is empty. Without watch mode
  \<open>main\<close> always ends, and without a pattern it goes from the listing straight to that
  part.
\<close>

theorem non_watch_exit_status:
  "(arg_watch a = None \<and>
    get_queue_infos (env_sqs env 0) (env_sched env 0) queue_urls
      (arg_workers a) (arg_include_in_flight a) w = (Inr results, w1) \<longrightarrow>
      after_listing env a fuel queue_urls w =
        (Some (if results \<noteq> [] then Inl (SystemExit 1) else Inr ()),
         display_results (env_region env) results (arg_include_in_flight a) w1) \<and>
      exit_status (if results \<noteq> [] then Inl (SystemExit 1) else Inr ()) =
        (if results \<noteq> [] then 1 else 0)) \<and>
   (arg_watch a = None \<longrightarrow> (\<exists>r w'. main env a fuel w = (Some r, w'))) \<and>
   (list_queues (env_sqs env 0) = Inr response \<and> (arg_pattern a = None \<or> arg_pattern a = Some []) \<longrightarrow>
      main env a fuel w =
        after_listing env a fuel (case QueueUrls response of None \<Rightarrow> [] | Some us \<Rightarrow> us)
          ((print_end ''Reading list of queues...'' w)\<lparr>calls := calls w @ [ListQueues]\<rparr>))"
proof (intro conjI impI)
  assume h: "arg_watch a = None \<and>
    get_queue_infos (env_sqs env 0) (env_sched env 0) queue_urls
      (arg_workers a) (arg_include_in_flight a) w = (Inr results, w1)"
  then show "after_listing env a fuel queue_urls w =
        (Some (if results \<noteq> [] then Inl (SystemExit 1) else Inr ()),
         display_results (env_region env) results (arg_include_in_flight a) w1)"
    by (simp add: after_listing_non_watch poll_once_result)
  show "exit_status (if results \<noteq> [] then Inl (SystemExit 1) else Inr ()) =
        (if results \<noteq> [] then 1 else 0)"
    by (simp add: exit_status_def)
next
  assume "arg_watch a = None"
  then show "\<exists>r w'. main env a fuel w = (Some r, w')" by (rule main_non_watch_returns)
next
  assume "list_queues (env_sqs env 0) = Inr response \<and> (arg_pattern a = None \<or> arg_pattern a = Some [])"
  then show "main env a fuel w =
        after_listing env a fuel (case QueueUrls response of None \<Rightarrow> [] | Some us \<Rightarrow> us)
          ((print_end ''Reading list of queues...'' w)\<lparr>calls := calls w @ [ListQueues]\<rparr>)"
    by (auto simp: main_def Let_def print_end_def)
qed

theorem non_watch_exit_status_witness:
  "arg_watch demo_args = None \<and>
   fst (get_queue_infos (env_sqs demo_env 0) (env_sched demo_env 0) (map fst demo_table)
      (arg_workers demo_args) (arg_include_in_flight demo_args) world0)
     = Inr [(3, 0, ''https://sqs/1/orders'')] \<and>
   fst (after_listing demo_env demo_args 0 (map fst demo_table) world0) = Some (Inl (SystemExit 1)) \<and>
   exit_status (Inl (SystemExit 1)) = 1 \<and>
   fst (get_queue_infos (table_sqs [(''https://sqs/1/idle'', Some (0, 0))]) [0]
     [''https://sqs/1/idle''] 4 False world0) = Inr [] \<and>
   fst (after_listing
      (demo_env\<lparr>env_sqs := \<lambda>cycle. table_sqs [(''https://sqs/1/idle'', Some (0, 0))],
                env_sched := \<lambda>cycle. [0]\<rparr>)
      demo_args 0 [''https://sqs/1/idle''] world0) = Some (Inr ()) \<and>
   exit_status (Inr ()) = 0"
proof -
  let ?env0 = "demo_env\<lparr>env_sqs := \<lambda>cycle. table_sqs [(''https://sqs/1/idle'', Some (0, 0))],
                env_sched := \<lambda>cycle. [0]\<rparr>"
  have watch: "arg_watch demo_args = None" by (simp add: demo_args_def)
  have p1: "fst (get_queue_infos (env_sqs demo_env 0) (env_sched demo_env 0) (map fst demo_table)
      (arg_workers demo_args) (arg_include_in_flight demo_args) world0)
     = Inr [(3, 0, ''https://sqs/1/orders'')]"
    using demo_poll_False by (simp add: demo_env_def demo_args_def)
  then have q1: "get_queue_infos (env_sqs demo_env 0) (env_sched demo_env 0) (map fst demo_table)
      (arg_workers demo_args) (arg_include_in_flight demo_args) world0
     = (Inr [(3, 0, ''https://sqs/1/orders'')],
        snd (get_queue_infos (env_sqs demo_env 0) (env_sched demo_env 0) (map fst demo_table)
          (arg_workers demo_args) (arg_include_in_flight demo_args) world0))"
    by (simp add: prod_eq_iff)
  have q2: "get_queue_infos (env_sqs ?env0 0) (env_sched ?env0 0) [''https://sqs/1/idle'']
      (arg_workers demo_args) (arg_include_in_flight demo_args) world0
     = (Inr [],
        snd (get_queue_infos (env_sqs ?env0 0) (env_sched ?env0 0) [''https://sqs/1/idle'']
          (arg_workers demo_args) (arg_include_in_flight demo_args) world0))"
    using demo_idle_poll by (simp add: prod_eq_iff demo_args_def)
  from non_watch_exit_status [of demo_args demo_env "map fst demo_table" world0
      "[(3, 0, ''https://sqs/1/orders'')]" _ 0] watch q1
  have 1: "fst (after_listing demo_env demo_args 0 (map fst demo_table) world0)
      = Some (Inl (SystemExit 1))"
    and 2: "exit_status (Inl (SystemExit 1)) = 1"
    by simp_all
  from non_watch_exit_status [of demo_args ?env0 "[''https://sqs/1/idle'']" world0 "[]" _ 0] watch q2
  have 3: "fst (after_listing ?env0 demo_args 0 [''https://sqs/1/idle''] world0) = Some (Inr ())"
    and 4: "exit_status (Inr ()) = 0"
    by simp_all
  from watch p1 1 2 3 4 demo_idle_poll show ?thesis by blast
qed

section \<open>An invalid pattern\<close>

lemma lit_compile_bracket: "re_compile (env_re demo_env) ''['' True = Inl ''unsupported pattern''"
  by code_simp

lemma demo_list_queues:
  "list_queues (env_sqs demo_env 0) = Inr \<lparr>QueueUrls = Some (map fst demo_table)\<rparr>"
  by (simp add: demo_env_def table_sqs_def demo_table_def)

text \<open>
  The pattern is compiled inside \<open>filter_queues_by_pattern\<close>, which \<open>main\<close> calls with the
  list of queues: the queues have been listed by then. With the pattern \<open>[\<close> the run ends
  with status 1, and the service has been called once.
\<close>

theorem invalid_pattern_counterexample:
  "arg_pattern (demo_args\<lparr>arg_pattern := Some ''[''\<rparr>) = Some ''['' \<and>
   re_compile (env_re demo_env) ''['' True = Inl ''unsupported pattern'' \<and>
   fst (main demo_env (demo_args\<lparr>arg_pattern := Some ''[''\<rparr>) 0 world0) = Some (Inl (SystemExit 1)) \<and>
   calls world0 = [] \<and>
   calls (snd (main demo_env (demo_args\<lparr>arg_pattern := Some ''[''\<rparr>) 0 world0)) = [ListQueues] \<and>
   calls (snd (main demo_env (demo_args\<lparr>arg_pattern := Some ''[''\<rparr>) 0 world0)) \<noteq> calls world0"
proof -
  have "main demo_env (demo_args\<lparr>arg_pattern := Some ''[''\<rparr>) 0 world0 =
      (Some (Inl (SystemExit 1)),
       print_line (invalid_pattern_text ''['' ''unsupported pattern'')
         ((print_end ''Reading list of queues...'' world0)\<lparr>calls := calls world0 @ [ListQueues]\<rparr>))"
    using lit_compile_bracket demo_list_queues
    by (simp add: main_def Let_def filter_queues_by_pattern_def print_end_def)
  then show ?thesis
    using lit_compile_bracket by (simp add: world0_def print_line_def print_end_def)
qed

text \<open>
  Claim C3, amended. If the pattern does not compile then, once the queues have been listed,
  the process prints the error message and ends with status 1; the listing is the only call
  to the service, so no attribute of any queue is fetched.
\<close>

theorem invalid_pattern_exits_before_fetching:
  "arg_pattern a = Some p \<and> p \<noteq> [] \<and> re_compile (env_re env) p True = Inl e \<and>
   list_queues (env_sqs env 0) = Inr response \<longrightarrow>
     main env a fuel w =
       (Some (Inl (SystemExit 1)),
        print_line (invalid_pattern_text p e)
          ((print_end ''Reading list of queues...'' w)\<lparr>calls := calls w @ [ListQueues]\<rparr>)) \<and>
     exit_status (Inl (SystemExit 1)) = 1 \<and>
     calls (snd (main env a fuel w)) = calls w @ [ListQueues] \<and>
     stdout (snd (main env a fuel w)) =
       stdout w @ [Write ''Reading list of queues...'', Write (invalid_pattern_text p e @ [CHR 0x0A])]"
proof (intro impI)
  assume h: "arg_pattern a = Some p \<and> p \<noteq> [] \<and> re_compile (env_re env) p True = Inl e \<and>
   list_queues (env_sqs env 0) = Inr response"
  then have m: "main env a fuel w =
       (Some (Inl (SystemExit 1)),
        print_line (invalid_pattern_text p e)
          ((print_end ''Reading list of queues...'' w)\<lparr>calls := calls w @ [ListQueues]\<rparr>))"
    by (simp add: main_def Let_def filter_queues_by_pattern_def print_end_def)
  then show "main env a fuel w =
       (Some (Inl (SystemExit 1)),
        print_line (invalid_pattern_text p e)
          ((print_end ''Reading list of queues...'' w)\<lparr>calls := calls w @ [ListQueues]\<rparr>)) \<and>
     exit_status (Inl (SystemExit 1)) = 1 \<and>
     calls (snd (main env a fuel w)) = calls w @ [ListQueues] \<and>
     stdout (snd (main env a fuel w)) =
       stdout w @ [Write ''Reading list of queues...'', Write (invalid_pattern_text p e @ [CHR 0x0A])]"
    by (simp add: exit_status_def print_line_def print_end_def)
qed

theorem invalid_pattern_exits_before_fetching_witness:
  "arg_pattern (demo_args\<lparr>arg_pattern := Some ''[''\<rparr>) = Some ''['' \<and> ''['' \<noteq> [] \<and>
   re_compile (env_re demo_env) ''['' True = Inl ''unsupported pattern'' \<and>
   list_queues (env_sqs demo_env 0) = Inr \<lparr>QueueUrls = Some (map fst demo_table)\<rparr> \<and>
   fst (main demo_env (demo_args\<lparr>arg_pattern := Some ''[''\<rparr>) 3 world0) = Some (Inl (SystemExit 1)) \<and>
   calls (snd (main demo_env (demo_args\<lparr>arg_pattern := Some ''[''\<rparr>) 3 world0)) = calls world0 @ [ListQueues]"
proof -
  have a: "arg_pattern (demo_args\<lparr>arg_pattern := Some ''[''\<rparr>) = Some ''[''" by simp
  have ne: "''['' \<noteq> []" by simp
  note inst = invalid_pattern_exits_before_fetching
    [of "demo_args\<lparr>arg_pattern := Some ''[''\<rparr>" "''[''" demo_env "''unsupported pattern''"
        "\<lparr>QueueUrls = Some (map fst demo_table)\<rparr>" 3 world0]
  from inst a ne lit_compile_bracket demo_list_queues
  have "main demo_env (demo_args\<lparr>arg_pattern := Some ''[''\<rparr>) 3 world0 =
       (Some (Inl (SystemExit 1)),
        print_line (invalid_pattern_text ''['' ''unsupported pattern'')
          ((print_end ''Reading list of queues...'' world0)\<lparr>calls := calls world0 @ [ListQueues]\<rparr>))"
    by blast
  then have "fst (main demo_env (demo_args\<lparr>arg_pattern := Some ''[''\<rparr>) 3 world0) = Some (Inl (SystemExit 1))"
    by simp
  moreover from inst a ne lit_compile_bracket demo_list_queues
  have "calls (snd (main demo_env (demo_args\<lparr>arg_pattern := Some ''[''\<rparr>) 3 world0)) = calls world0 @ [ListQueues]"
    by blast
  ultimately have "fst (main demo_env (demo_args\<lparr>arg_pattern := Some ''[''\<rparr>) 3 world0) = Some (Inl (SystemExit 1))"
    and "calls (snd (main demo_env (demo_args\<lparr>arg_pattern := Some ''[''\<rparr>) 3 world0)) = calls world0 @ [ListQueues]"
    by blast+
  with a ne lit_compile_bracket demo_list_queues show ?thesis by blast
qed

end
